theory Spec2Isabelle
  imports Main "HOL-Library.Word"
begin

unbundle bit_operations_syntax

section \<open>Machine types and error codes\<close>

type_synonym u8 = "8 word"
type_synonym u16 = "16 word"
type_synonym u32 = "32 word"
type_synonym u64 = "64 word"

text \<open>A C \<open>int\<close> / \<open>s32\<close> is kept as its 32-bit pattern and read with \<open>sint\<close>.\<close>

type_synonym s32 = "32 word"

text \<open>Return codes are C \<open>int\<close>s: 0 for success, a negated errno for failure.\<close>

definition EIO :: int where "EIO = 5"
definition EINVAL :: int where "EINVAL = 22"

section \<open>Register constants (the \<open>#define\<close>s of arducam-imx477p.c)\<close>

definition IMX477_REG_VALUE_08BIT :: u32 where "IMX477_REG_VALUE_08BIT = 1"
definition IMX477_REG_VALUE_16BIT :: u32 where "IMX477_REG_VALUE_16BIT = 2"

definition IMX477_REG_MODE_SELECT :: u16 where "IMX477_REG_MODE_SELECT = 0x0100"
definition IMX477_MODE_STANDBY :: u32 where "IMX477_MODE_STANDBY = 0x00"
definition IMX477_MODE_STREAMING :: u32 where "IMX477_MODE_STREAMING = 0x01"
definition IMX477_REG_ORIENTATION :: u16 where "IMX477_REG_ORIENTATION = 0x101"

definition IMX477_PIXEL_RATE :: u64 where "IMX477_PIXEL_RATE = 614400000"

definition IMX477_REG_FRAME_LENGTH :: u16 where "IMX477_REG_FRAME_LENGTH = 0x0340"
definition IMX477_FRAME_LENGTH_MAX :: u32 where "IMX477_FRAME_LENGTH_MAX = 0xffdc"
definition IMX477_REG_LINE_LENGTH :: u16 where "IMX477_REG_LINE_LENGTH = 0x0342"
definition IMX477_LINE_LENGTH_MAX :: u32 where "IMX477_LINE_LENGTH_MAX = 0xfff0"

definition IMX477_LONG_EXP_SHIFT_MAX :: nat where "IMX477_LONG_EXP_SHIFT_MAX = 7"
definition IMX477_LONG_EXP_SHIFT_REG :: u16 where "IMX477_LONG_EXP_SHIFT_REG = 0x3100"

definition IMX477_REG_EXPOSURE :: u16 where "IMX477_REG_EXPOSURE = 0x0202"
definition IMX477_EXPOSURE_OFFSET :: u32 where "IMX477_EXPOSURE_OFFSET = 22"

definition IMX477_REG_ANALOG_GAIN :: u16 where "IMX477_REG_ANALOG_GAIN = 0x0204"
definition IMX477_REG_DIGITAL_GAIN :: u16 where "IMX477_REG_DIGITAL_GAIN = 0x020e"

definition IMX477_REG_TEST_PATTERN :: u16 where "IMX477_REG_TEST_PATTERN = 0x0600"
definition IMX477_REG_TEST_PATTERN_R :: u16 where "IMX477_REG_TEST_PATTERN_R = 0x0602"
definition IMX477_REG_TEST_PATTERN_GR :: u16 where "IMX477_REG_TEST_PATTERN_GR = 0x0604"
definition IMX477_REG_TEST_PATTERN_B :: u16 where "IMX477_REG_TEST_PATTERN_B = 0x0606"
definition IMX477_REG_TEST_PATTERN_GB :: u16 where "IMX477_REG_TEST_PATTERN_GB = 0x0608"

text \<open>
  \<open>MEDIA_BUS_FMT_SRGGB10_1X10\<close> comes from the kernel's media-bus-format header,
  where its value is \<open>0x300f\<close>.
\<close>

definition MEDIA_BUS_FMT_SRGGB10_1X10 :: u32 where "MEDIA_BUS_FMT_SRGGB10_1X10 = 0x300f"

section \<open>Register tables and the mode catalog\<close>

record imx477_reg =
  address :: u16
  reg_val :: u8

definition mk_reg :: "u16 \<times> u8 \<Rightarrow> imx477_reg" where
  "mk_reg p = \<lparr>address = fst p, reg_val = snd p\<rparr>"

definition mode_common_regs :: "imx477_reg list" where
  "mode_common_regs = map mk_reg
    [
     (0x0103, 0x01), (0x0136, 0x18), (0x0137, 0x00), (0x38A8, 0x1F), (0x38A9, 0xFF), (0x38AA, 0x1F),
     (0x38AB, 0xFF), (0x55D4, 0x00), (0x55D5, 0x00), (0x55D6, 0x07), (0x55D7, 0xFF), (0x55E8, 0x07),
     (0x55E9, 0xFF), (0x55EA, 0x00), (0x55EB, 0x00), (0x575C, 0x07), (0x575D, 0xFF), (0x575E, 0x00),
     (0x575F, 0x00), (0x5764, 0x00), (0x5765, 0x00), (0x5766, 0x07), (0x5767, 0xFF), (0x5974, 0x04),
     (0x5975, 0x01), (0x5F10, 0x09), (0x5F11, 0x92), (0x5F12, 0x32), (0x5F13, 0x72), (0x5F14, 0x16),
     (0x5F15, 0xBA), (0x5F17, 0x13), (0x5F18, 0x24), (0x5F19, 0x60), (0x5F1A, 0xE3), (0x5F1B, 0xAD),
     (0x5F1C, 0x74), (0x5F2D, 0x25), (0x5F5C, 0xD0), (0x6A22, 0x00), (0x6A23, 0x1D), (0x7BA8, 0x00),
     (0x7BA9, 0x00), (0x886B, 0x00), (0x9002, 0x0A), (0x9004, 0x1A), (0x9214, 0x93), (0x9215, 0x69),
     (0x9216, 0x93), (0x9217, 0x6B), (0x9218, 0x93), (0x9219, 0x6D), (0x921A, 0x57), (0x921B, 0x58),
     (0x921C, 0x57), (0x921D, 0x59), (0x921E, 0x57), (0x921F, 0x5A), (0x9220, 0x57), (0x9221, 0x5B),
     (0x9222, 0x93), (0x9223, 0x02), (0x9224, 0x93), (0x9225, 0x03), (0x9226, 0x93), (0x9227, 0x04),
     (0x9228, 0x93), (0x9229, 0x05), (0x922A, 0x98), (0x922B, 0x21), (0x922C, 0xB2), (0x922D, 0xDB),
     (0x922E, 0xB2), (0x922F, 0xDC), (0x9230, 0xB2), (0x9231, 0xDD), (0x9232, 0xB2), (0x9233, 0xE1),
     (0x9234, 0xB2), (0x9235, 0xE2), (0x9236, 0xB2), (0x9237, 0xE3), (0x9238, 0xB7), (0x9239, 0xB9),
     (0x923A, 0xB7), (0x923B, 0xBB), (0x923C, 0xB7), (0x923D, 0xBC), (0x923E, 0xB7), (0x923F, 0xC5),
     (0x9240, 0xB7), (0x9241, 0xC7), (0x9242, 0xB7), (0x9243, 0xC9), (0x9244, 0x98), (0x9245, 0x56),
     (0x9246, 0x98), (0x9247, 0x55), (0x9380, 0x00), (0x9381, 0x62), (0x9382, 0x00), (0x9383, 0x56),
     (0x9384, 0x00), (0x9385, 0x52), (0x9388, 0x00), (0x9389, 0x55), (0x938A, 0x00), (0x938B, 0x55),
     (0x938C, 0x00), (0x938D, 0x41), (0x5078, 0x01), (0x0112, 0x0A), (0x0113, 0x0A), (0x0114, 0x01)
    ]"

definition mode_4056x3040_regs :: "imx477_reg list" where
  "mode_4056x3040_regs = map mk_reg
    [
     (0x0342, 0x49), (0x0343, 0xA8), (0x0350, 0x00), (0x0340, 0x0C), (0x0341, 0x1E), (0x3210, 0x00),
     (0x0344, 0x00), (0x0345, 0x00), (0x0346, 0x00), (0x0347, 0x00), (0x0348, 0x0F), (0x0349, 0xD7),
     (0x034A, 0x0B), (0x034B, 0xDF), (0x0220, 0x00), (0x0221, 0x11), (0x0381, 0x01), (0x0383, 0x01),
     (0x0385, 0x01), (0x0387, 0x01), (0x0900, 0x00), (0x0901, 0x11), (0x0902, 0x00), (0x3140, 0x02),
     (0x0401, 0x00), (0x0404, 0x00), (0x0405, 0x10), (0x0408, 0x00), (0x0409, 0x00), (0x040A, 0x00),
     (0x040B, 0x00), (0x040C, 0x0F), (0x040D, 0xD8), (0x040E, 0x0B), (0x040F, 0xE0), (0x034C, 0x0F),
     (0x034D, 0xD8), (0x034E, 0x0B), (0x034F, 0xE0), (0x0301, 0x05), (0x0303, 0x02), (0x0305, 0x04),
     (0x0306, 0x01), (0x0307, 0x00), (0x0309, 0x08), (0x030B, 0x02), (0x030D, 0x02), (0x030E, 0x00),
     (0x030F, 0x98), (0x0310, 0x01), (0x0820, 0x20), (0x0821, 0xD0), (0x0822, 0x00), (0x0823, 0x00),
     (0x3E20, 0x01), (0x3E37, 0x00), (0x3F50, 0x00), (0x3F56, 0x00), (0x3F57, 0x82), (0x0202, 0x0C),
     (0x0203, 0x08), (0x0204, 0x00), (0x0205, 0x00), (0x020E, 0x01), (0x020F, 0x00), (0x0210, 0x01),
     (0x0211, 0x00), (0x0212, 0x01), (0x0213, 0x00), (0x0214, 0x01), (0x0215, 0x00), (0x0100, 0x01)
    ]"

definition mode_3840x2160_regs :: "imx477_reg list" where
  "mode_3840x2160_regs = map mk_reg
    [
     (0x0342, 0x34), (0x0343, 0x80), (0x0350, 0x00), (0x0340, 0x08), (0x0341, 0xED), (0x3210, 0x00),
     (0x0344, 0x00), (0x0345, 0x6C), (0x0346, 0x01), (0x0347, 0xB8), (0x0348, 0x0F), (0x0349, 0x6B),
     (0x034A, 0x0A), (0x034B, 0x27), (0x0220, 0x00), (0x0221, 0x11), (0x0381, 0x01), (0x0383, 0x01),
     (0x0385, 0x01), (0x0387, 0x01), (0x0900, 0x00), (0x0901, 0x11), (0x0902, 0x00), (0x3140, 0x02),
     (0x0401, 0x00), (0x0404, 0x00), (0x0405, 0x10), (0x0408, 0x00), (0x0409, 0x00), (0x040A, 0x00),
     (0x040B, 0x00), (0x040C, 0x0F), (0x040D, 0x00), (0x040E, 0x08), (0x040F, 0x70), (0x034C, 0x0F),
     (0x034D, 0x00), (0x034E, 0x08), (0x034F, 0x70), (0x0301, 0x05), (0x0303, 0x02), (0x0305, 0x04),
     (0x0306, 0x01), (0x0307, 0x00), (0x0309, 0x08), (0x030B, 0x02), (0x030D, 0x02), (0x030E, 0x00),
     (0x030F, 0x98), (0x0310, 0x01), (0x0820, 0x20), (0x0821, 0xD0), (0x0822, 0x00), (0x0823, 0x00),
     (0x3E20, 0x01), (0x3E37, 0x00), (0x3F50, 0x00), (0x3F56, 0x00), (0x3F57, 0x82), (0x0202, 0x08),
     (0x0203, 0xEC), (0x0204, 0x00), (0x0205, 0x00), (0x020E, 0x01), (0x020F, 0x00), (0x0210, 0x01),
     (0x0211, 0x00), (0x0212, 0x01), (0x0213, 0x00), (0x0214, 0x01), (0x0215, 0x00), (0x0100, 0x01)
    ]"

definition mode_1920x1080_regs :: "imx477_reg list" where
  "mode_1920x1080_regs = map mk_reg
    [
     (0x0342, 0x20), (0x0343, 0x70), (0x0350, 0x00), (0x0340, 0x04), (0x0341, 0xD0), (0x3210, 0x00),
     (0x0344, 0x00), (0x0345, 0x60), (0x0346, 0x01), (0x0347, 0xB8), (0x0348, 0x0F), (0x0349, 0xCB),
     (0x034A, 0x0B), (0x034B, 0xDF), (0x00E3, 0x00), (0x00E4, 0x00), (0x00E5, 0x01), (0x00FC, 0x0A),
     (0x00FD, 0x0A), (0x00FE, 0x0A), (0x00FF, 0x0A), (0xE013, 0x00), (0x0220, 0x00), (0x0221, 0x11),
     (0x0381, 0x01), (0x0383, 0x01), (0x0385, 0x01), (0x0387, 0x01), (0x0900, 0x01), (0x0901, 0x22),
     (0x0902, 0x02), (0x3140, 0x02), (0x3241, 0x11), (0x3250, 0x03), (0x3E10, 0x00), (0x3E11, 0x00),
     (0x3F0D, 0x00), (0x3F42, 0x00), (0x3F43, 0x00), (0x0401, 0x00), (0x0404, 0x00), (0x0405, 0x10),
     (0x0408, 0x00), (0x0409, 0x00), (0x040A, 0x00), (0x040B, 0x00), (0x040C, 0x07), (0x040D, 0x80),
     (0x040E, 0x04), (0x040F, 0x38), (0x034C, 0x07), (0x034D, 0x80), (0x034E, 0x04), (0x034F, 0x38),
     (0x0301, 0x05), (0x0303, 0x02), (0x0305, 0x04), (0x0306, 0x01), (0x0307, 0x00), (0x0309, 0x08),
     (0x030B, 0x02), (0x030D, 0x02), (0x030E, 0x00), (0x030F, 0x98), (0x0310, 0x01), (0x0820, 0x20),
     (0x0821, 0xD0), (0x0822, 0x00), (0x0823, 0x00), (0x3E20, 0x01), (0x3E37, 0x00)
    ]"

record v4l2_fract =
  numerator :: u32
  denominator :: u32

text \<open>
  \<open>struct imx477_mode\<close>. The \<open>crop\<close> rectangle is never initialised nor read by the
  driver and is left out; \<open>reg_list\<close> is the register array, whose \<open>num_of_regs\<close> is
  always \<open>ARRAY_SIZE\<close> of it.
\<close>

record imx477_mode =
  bus_fmt :: u32
  width :: u32
  height :: u32
  line_length_pix :: u32
  max_fps :: v4l2_fract
  timeperframe_default :: v4l2_fract
  reg_list :: "imx477_reg list"

definition mode_4056x3040 :: imx477_mode where
  "mode_4056x3040 =
     \<lparr>bus_fmt = MEDIA_BUS_FMT_SRGGB10_1X10, width = 4056, height = 3040,
      line_length_pix = 0x49a8,
      max_fps = \<lparr>numerator = 100, denominator = 1000\<rparr>,
      timeperframe_default = \<lparr>numerator = 100, denominator = 1000\<rparr>,
      reg_list = mode_4056x3040_regs\<rparr>"

definition mode_3840x2160 :: imx477_mode where
  "mode_3840x2160 =
     \<lparr>bus_fmt = MEDIA_BUS_FMT_SRGGB10_1X10, width = 3840, height = 2160,
      line_length_pix = 0x3480,
      max_fps = \<lparr>numerator = 100, denominator = 2000\<rparr>,
      timeperframe_default = \<lparr>numerator = 100, denominator = 2000\<rparr>,
      reg_list = mode_3840x2160_regs\<rparr>"

definition mode_1920x1080 :: imx477_mode where
  "mode_1920x1080 =
     \<lparr>bus_fmt = MEDIA_BUS_FMT_SRGGB10_1X10, width = 1920, height = 1080,
      line_length_pix = 0x2070,
      max_fps = \<lparr>numerator = 100, denominator = 6000\<rparr>,
      timeperframe_default = \<lparr>numerator = 100, denominator = 6000\<rparr>,
      reg_list = mode_1920x1080_regs\<rparr>"

definition supported_modes :: "imx477_mode list" where
  "supported_modes = [mode_4056x3040, mode_3840x2160, mode_1920x1080]"

section \<open>Device state\<close>

text \<open>
  The controls registered by \<open>imx477_init_controls\<close>, named by their V4L2 ids.
  \<open>struct imx477\<close> keeps pointers to some of them (\<open>exposure\<close>, \<open>vblank\<close>,
  \<open>hflip\<close>, ...); here every control is reached through the handler by its id.
\<close>

datatype ctrl_id =
    V4L2_CID_LINK_FREQ
  | V4L2_CID_PIXEL_RATE
  | V4L2_CID_VBLANK
  | V4L2_CID_HBLANK
  | V4L2_CID_EXPOSURE
  | V4L2_CID_ANALOGUE_GAIN
  | V4L2_CID_DIGITAL_GAIN
  | V4L2_CID_HFLIP
  | V4L2_CID_VFLIP
  | V4L2_CID_TEST_PATTERN
  | V4L2_CID_TEST_PATTERN_RED
  | V4L2_CID_TEST_PATTERN_GREENR
  | V4L2_CID_TEST_PATTERN_BLUE
  | V4L2_CID_TEST_PATTERN_GREENB

text \<open>
  The fields of \<open>struct v4l2_ctrl\<close> the driver reads or the framework changes on its
  behalf: \<open>val\<close> is an \<open>s32\<close>; the range fields are \<open>s64\<close> in the kernel and
  hold sign-extended \<open>int\<close>s here; \<open>grabbed\<close> is the \<open>V4L2_CTRL_FLAG_GRABBED\<close> bit.
\<close>

record v4l2_ctrl =
  val :: s32
  minimum :: int
  maximum :: int
  step :: int
  default_value :: int
  grabbed :: bool

text \<open>One exchange handed to the I2C adapter: a write, or an address write plus read.\<close>

datatype i2c_xfer = I2C_send "u8 list" | I2C_read "u8 list" nat

text \<open>
  \<open>struct imx477\<close>, followed by the environment the driver talks to:
  \<^item> \<open>i2c_log\<close>: every exchange handed to the bus so far, in order;
  \<^item> \<open>i2c_fail k\<close>: whether the \<open>k\<close>-th exchange (counted from 0) fails;
  \<^item> \<open>i2c_rx k\<close>: the bytes the device answers to the \<open>k\<close>-th exchange when it is a read;
  \<^item> \<open>rpm_usage\<close>, \<open>rpm_suspended\<close>: the runtime-PM usage count and status;
  \<^item> \<open>regulator_err\<close>, \<open>clk_err\<close>: the errno with which \<open>regulator_bulk_enable\<close>
    and \<open>clk_prepare_enable\<close> fail, 0 when they succeed (they return 0 or a negated
    errno);
  \<^item> \<open>hw_powered\<close>: whether supplies and clock are enabled.
\<close>

record imx477 =
  ctrl_handler :: "ctrl_id \<Rightarrow> v4l2_ctrl"
  mutex_locked :: bool
  streaming :: bool
  power_on :: bool
  cur_mode :: imx477_mode
  cfg_num :: nat
  common_regs_written :: bool
  long_exp_shift :: u32
  extra_regs :: "imx477_reg list"
  i2c_log :: "i2c_xfer list"
  i2c_fail :: "nat \<Rightarrow> bool"
  i2c_rx :: "nat \<Rightarrow> u8 list"
  rpm_usage :: int
  rpm_suspended :: bool
  regulator_err :: nat
  clk_err :: nat
  hw_powered :: bool

definition exposure :: "imx477 \<Rightarrow> v4l2_ctrl" where
  "exposure s = ctrl_handler s V4L2_CID_EXPOSURE"

definition vblank :: "imx477 \<Rightarrow> v4l2_ctrl" where
  "vblank s = ctrl_handler s V4L2_CID_VBLANK"

definition hflip :: "imx477 \<Rightarrow> v4l2_ctrl" where
  "hflip s = ctrl_handler s V4L2_CID_HFLIP"

definition vflip :: "imx477 \<Rightarrow> v4l2_ctrl" where
  "vflip s = ctrl_handler s V4L2_CID_VFLIP"

definition mutex_lock :: "imx477 \<Rightarrow> imx477" where
  "mutex_lock s = s\<lparr>mutex_locked := True\<rparr>"

definition mutex_unlock :: "imx477 \<Rightarrow> imx477" where
  "mutex_unlock s = s\<lparr>mutex_locked := False\<rparr>"

section \<open>Mode negotiation\<close>

text \<open>The fields of \<open>struct v4l2_mbus_framefmt\<close> that the driver reads.\<close>

record v4l2_mbus_framefmt =
  fmt_width :: u32
  fmt_height :: u32
  fmt_code :: u32

text \<open>
  The kernel's \<open>abs()\<close> macro: an unsigned argument is first converted to the signed
  type of the same width, then negated when negative. The result is a C \<open>int\<close>.
\<close>

definition kernel_abs :: "u32 \<Rightarrow> s32" where
  "kernel_abs x = (if sint x < 0 then - x else x)"

text \<open>
  \<open>mode->width - framefmt->width\<close> is a subtraction of two unsigned 32-bit values and
  wraps; the sum of the two \<open>abs\<close> results is an \<open>int\<close>.
\<close>

definition imx477_get_reso_dist :: "imx477_mode \<Rightarrow> v4l2_mbus_framefmt \<Rightarrow> s32" where
  "imx477_get_reso_dist mode framefmt =
     kernel_abs (width mode - fmt_width framefmt) +
     kernel_abs (height mode - fmt_height framefmt)"

text \<open>
  The \<open>for\<close> loop of \<open>imx477_find_best_fit\<close>, from index \<open>i\<close> on, over an array
  \<open>modes\<close> of which the first \<open>num\<close> entries are visited (\<open>num\<close> is
  \<open>imx477->cfg_num\<close>). \<open>dist\<close> and
  \<open>cur_best_fit_dist\<close> are \<open>int\<close>s and compared as such.
\<close>

function find_best_fit_loop ::
  "imx477_mode list \<Rightarrow> nat \<Rightarrow> v4l2_mbus_framefmt \<Rightarrow> nat \<Rightarrow> nat \<Rightarrow> s32 \<Rightarrow> nat" where
  "find_best_fit_loop modes num framefmt i cur_best_fit cur_best_fit_dist =
     (if i < num then
        (let dist = imx477_get_reso_dist (modes ! i) framefmt in
         if (cur_best_fit_dist = - 1 \<or> sint dist < sint cur_best_fit_dist) \<and>
            bus_fmt (modes ! i) = fmt_code framefmt
         then find_best_fit_loop modes num framefmt (i + 1) i dist
         else find_best_fit_loop modes num framefmt (i + 1) cur_best_fit cur_best_fit_dist)
      else cur_best_fit)"
  by pat_completeness auto
termination
  by (relation "measure (\<lambda>(modes, num, framefmt, i, b, d). num - i)") auto

declare find_best_fit_loop.simps [simp del]

text \<open>
  \<open>imx477_find_best_fit\<close>. \<open>find_best_fit_index\<close> is the final \<open>cur_best_fit\<close>;
  the C function returns \<open>&supported_modes[cur_best_fit]\<close>. \<open>imx477_probe\<close> sets
  \<open>cfg_num\<close> to \<open>ARRAY_SIZE(supported_modes)\<close> and nothing changes it afterwards.
\<close>

definition find_best_fit_index :: "imx477 \<Rightarrow> v4l2_mbus_framefmt \<Rightarrow> nat" where
  "find_best_fit_index imx477 framefmt =
     find_best_fit_loop supported_modes (cfg_num imx477) framefmt 0 0 (- 1)"

definition imx477_find_best_fit :: "imx477 \<Rightarrow> v4l2_mbus_framefmt \<Rightarrow> imx477_mode" where
  "imx477_find_best_fit imx477 framefmt = supported_modes ! find_best_fit_index imx477 framefmt"

section \<open>Timing engine\<close>

text \<open>
  The kernel macro \<open>do_div(n, base)\<close> (asm-generic/div64.h) divides the 64-bit \<open>n\<close> in
  place by a 32-bit divisor: its kernel-doc reads \<open>@base: uint32_t divisor\<close>, and the
  macro first stores \<open>base\<close> in a \<open>uint32_t\<close>. So a wider second argument is cut to
  its low 32 bits before the division. A divisor that is zero after that conversion makes
  the division undefined in C: the model returns \<open>None\<close>.
\<close>

definition do_div :: "u64 \<Rightarrow> u64 \<Rightarrow> u64 option" where
  "do_div n base =
     (let base32 = (ucast base :: u32)
      in if base32 = 0 then None else Some (n div ucast base32))"

text \<open>
  \<open>imx477_get_frame_length\<close>. The product \<open>(u64)numerator * IMX477_PIXEL_RATE\<close> and
  the divisor \<open>(u64)denominator * line_length_pix\<close> are computed in 64 bits;
  \<open>max_t(unsigned int, a, b)\<close> converts both operands to \<open>unsigned int\<close>.
\<close>

definition imx477_get_frame_length :: "imx477_mode \<Rightarrow> v4l2_fract \<Rightarrow> u32 option" where
  "imx477_get_frame_length mode timeperframe =
     (case do_div (ucast (numerator timeperframe) * IMX477_PIXEL_RATE)
                  (ucast (denominator timeperframe) * ucast (line_length_pix mode)) of
        None \<Rightarrow> None
      | Some frame_length \<Rightarrow>
          (let frame_length' =
                 (if ucast IMX477_FRAME_LENGTH_MAX < frame_length
                  then ucast IMX477_FRAME_LENGTH_MAX else frame_length)
           in Some (max (ucast frame_length') (height mode))))"

section \<open>Register transport\<close>

definition put_unaligned_be16 :: "u16 \<Rightarrow> u8 list" where
  "put_unaligned_be16 v = [ucast (drop_bit 8 v), ucast v]"

definition put_unaligned_be32 :: "u32 \<Rightarrow> u8 list" where
  "put_unaligned_be32 v =
     [ucast (drop_bit 24 v), ucast (drop_bit 16 v), ucast (drop_bit 8 v), ucast v]"

definition get_unaligned_be32 :: "u8 list \<Rightarrow> u32" where
  "get_unaligned_be32 b =
     push_bit 24 (ucast (b ! 0)) OR push_bit 16 (ucast (b ! 1)) OR
     push_bit 8 (ucast (b ! 2)) OR ucast (b ! 3)"

definition EREMOTEIO :: int where "EREMOTEIO = 121"

text \<open>
  \<open>i2c_master_send\<close> hands the buffer to the adapter and returns the number of bytes
  sent, or a negative errno when the exchange fails.
\<close>

definition i2c_master_send :: "imx477 \<Rightarrow> u8 list \<Rightarrow> int \<times> imx477" where
  "i2c_master_send s buf =
     (let k = length (i2c_log s);
          s' = s\<lparr>i2c_log := i2c_log s @ [I2C_send buf]\<rparr>
      in if i2c_fail s k then (- EREMOTEIO, s') else (int (length buf), s'))"

text \<open>
  \<open>i2c_transfer\<close> with the two messages of a register read: the address bytes, then
  \<open>len\<close> bytes read back. It returns the number of messages done (2) or a negative errno.
\<close>

definition i2c_transfer_read :: "imx477 \<Rightarrow> u8 list \<Rightarrow> nat \<Rightarrow> int \<times> u8 list \<times> imx477" where
  "i2c_transfer_read s addr_buf len =
     (let k = length (i2c_log s);
          s' = s\<lparr>i2c_log := i2c_log s @ [I2C_read addr_buf len]\<rparr>
      in if i2c_fail s k then (- EREMOTEIO, replicate len 0, s')
         else (2, take len (i2c_rx s k @ replicate len 0), s'))"

text \<open>
  \<open>imx477_read_reg\<close>: the second component is the value stored through \<open>*val\<close>,
  \<open>None\<close> when the function returns without storing.
\<close>

definition imx477_read_reg :: "imx477 \<Rightarrow> u16 \<Rightarrow> u32 \<Rightarrow> int \<times> u32 option \<times> imx477" where
  "imx477_read_reg s reg len =
     (if 4 < len then (- EINVAL, None, s)
      else
        (let addr_buf = [ucast (drop_bit 8 reg), ucast (reg AND 0xff)];
             (ret, rx, s') = i2c_transfer_read s addr_buf (unat len)
         in if ret \<noteq> 2 then (- EIO, None, s')
            else (0, Some (get_unaligned_be32 (replicate (4 - unat len) 0 @ rx)), s')))"

text \<open>
  \<open>imx477_write_reg\<close>: the six-byte buffer holds the register address and
  \<open>val << (8 * (4 - len))\<close>, both big-endian; its first \<open>len + 2\<close> bytes are sent.
  (For \<open>len = 0\<close> the shift count is 32; no byte of the shifted value is sent then.)
\<close>

definition write_reg_buf :: "u16 \<Rightarrow> u32 \<Rightarrow> u32 \<Rightarrow> u8 list" where
  "write_reg_buf reg len v =
     take (unat len + 2)
       (put_unaligned_be16 reg @ put_unaligned_be32 (push_bit (8 * (4 - unat len)) v))"

definition imx477_write_reg :: "imx477 \<Rightarrow> u16 \<Rightarrow> u32 \<Rightarrow> u32 \<Rightarrow> int \<times> imx477" where
  "imx477_write_reg s reg len v =
     (if 4 < len then (- EINVAL, s)
      else
        (let (n, s') = i2c_master_send s (write_reg_buf reg len v)
         in if n \<noteq> int (unat len + 2) then (- EIO, s') else (0, s')))"

text \<open>
  \<open>imx477_write_regs\<close>: every caller passes an array together with its own size, so the
  loop \<open>for (i = 0; i < len; i++)\<close> runs over the whole list; it stops at the first error.
\<close>

fun imx477_write_regs :: "imx477 \<Rightarrow> imx477_reg list \<Rightarrow> int \<times> imx477" where
  "imx477_write_regs s [] = (0, s)"
| "imx477_write_regs s (r # regs) =
     (case imx477_write_reg s (address r) 1 (ucast (reg_val r)) of
        (ret, s') \<Rightarrow> if ret \<noteq> 0 then (ret, s') else imx477_write_regs s' regs)"

section \<open>Power and runtime PM\<close>

text \<open>
  The functions \<open>__imx477_power_on\<close>, \<open>__imx477_power_off\<close>,
  \<open>__imx477_start_streaming\<close> and \<open>__imx477_stop_streaming\<close> of the source appear
  here without their leading underscores.
\<close>

definition imx477_power_on :: "imx477 \<Rightarrow> int \<times> imx477" where
  "imx477_power_on s =
     (if regulator_err s \<noteq> 0 then (- int (regulator_err s), s)
      else if clk_err s \<noteq> 0 then (- int (clk_err s), s\<lparr>hw_powered := False\<rparr>)
      else (0, s\<lparr>hw_powered := True\<rparr>))"

definition imx477_power_off :: "imx477 \<Rightarrow> int \<times> imx477" where
  "imx477_power_off s = (0, s\<lparr>hw_powered := False, common_regs_written := False\<rparr>)"

definition imx477_stop_streaming :: "imx477 \<Rightarrow> imx477" where
  "imx477_stop_streaming s =
     snd (imx477_write_reg s IMX477_REG_MODE_SELECT IMX477_REG_VALUE_08BIT IMX477_MODE_STANDBY)"


definition imx477_resume :: "imx477 \<Rightarrow> int \<times> imx477" where
  "imx477_resume s =
     (let (ret, s1) = imx477_power_on s
      in if ret \<noteq> 0 then (ret, (imx477_stop_streaming s1)\<lparr>streaming := False\<rparr>)
         else (0, s1))"

text \<open>
  Modelled from the spec: the runtime-PM core (\<open>pm_runtime_get_sync\<close>,
  \<open>pm_runtime_put\<close>, \<open>pm_runtime_put_noidle\<close>) is the external power-management
  collaborator, to which reference counting is delegated. \<open>pm_runtime_get_sync\<close> takes a
  reference and, when the device is suspended, runs the driver's resume callback
  (\<open>imx477_resume\<close>) before returning: a negative errno of the callback is passed on, 0 is
  returned after a resume and 1 when the device was already active. The two \<open>put\<close>
  calls drop a reference; the suspend that may follow \<open>pm_runtime_put\<close> is asynchronous
  and is a later, separate \<open>imx477_suspend\<close>.
\<close>

definition pm_runtime_get_sync :: "imx477 \<Rightarrow> int \<times> imx477" where
  "pm_runtime_get_sync s =
     (let s1 = s\<lparr>rpm_usage := rpm_usage s + 1\<rparr>
      in if rpm_suspended s1 then
           (let (ret, s2) = imx477_resume s1
            in if ret \<noteq> 0 then (ret, s2) else (0, s2\<lparr>rpm_suspended := False\<rparr>))
         else (1, s1))"

definition pm_runtime_put :: "imx477 \<Rightarrow> imx477" where
  "pm_runtime_put s = s\<lparr>rpm_usage := rpm_usage s - 1\<rparr>"

definition pm_runtime_put_noidle :: "imx477 \<Rightarrow> imx477" where
  "pm_runtime_put_noidle s = s\<lparr>rpm_usage := rpm_usage s - 1\<rparr>"

text \<open>\<open>imx477_s_power\<close>; \<open>!!on\<close> is 1 for a non-zero \<open>on\<close> and 0 otherwise.\<close>

definition imx477_s_power :: "imx477 \<Rightarrow> int \<Rightarrow> int \<times> imx477" where
  "imx477_s_power s0 on =
     (let s = mutex_lock s0
      in if power_on s = (on \<noteq> 0) then (0, mutex_unlock s)
         else if on \<noteq> 0 then
           (let (ret, s1) = pm_runtime_get_sync s
            in if ret < 0 then (ret, mutex_unlock (pm_runtime_put_noidle s1))
               else (ret, mutex_unlock (s1\<lparr>power_on := True\<rparr>)))
         else (0, mutex_unlock ((pm_runtime_put s)\<lparr>power_on := False\<rparr>)))"

section \<open>Control mapper\<close>

text \<open>
  Modelled from the spec: \<open>__v4l2_ctrl_modify_range\<close> belongs to the V4L2 control
  framework, which is not part of the driver file. It installs the new minimum, maximum,
  step and default, and a current value outside the new range is clamped into it (a value
  above the new maximum becomes the maximum).
\<close>

definition v4l2_ctrl_modify_range :: "v4l2_ctrl \<Rightarrow> int \<Rightarrow> int \<Rightarrow> int \<Rightarrow> int \<Rightarrow> v4l2_ctrl" where
  "v4l2_ctrl_modify_range c mn mx st df =
     c\<lparr>minimum := mn, maximum := mx, step := st, default_value := df,
       val := (if mx < sint (val c) then word_of_int mx
               else if sint (val c) < mn then word_of_int mn
               else val c)\<rparr>"

text \<open>
  \<open>__v4l2_ctrl_grab\<close> belongs to the V4L2 control framework, outside the driver
  file. The model records, per control, the flag the driver last passed to it; what the
  framework does with a grabbed control is not modelled.
\<close>

definition v4l2_ctrl_grab :: "imx477 \<Rightarrow> ctrl_id \<Rightarrow> bool \<Rightarrow> imx477" where
  "v4l2_ctrl_grab s cid g =
     s\<lparr>ctrl_handler := (ctrl_handler s)(cid := (ctrl_handler s cid)\<lparr>grabbed := g\<rparr>)\<rparr>"

text \<open>
  \<open>imx477_adjust_exposure_range\<close>: \<open>height + vblank->val - IMX477_EXPOSURE_OFFSET\<close> is
  computed in \<open>unsigned int\<close> and stored in an \<open>int\<close>; \<open>min\<close> compares two \<open>int\<close>s.
\<close>

definition imx477_adjust_exposure_range :: "imx477 \<Rightarrow> imx477" where
  "imx477_adjust_exposure_range s =
     (let exposure_max = height (cur_mode s) + val (vblank s) - IMX477_EXPOSURE_OFFSET;
          exposure_def = (if sint exposure_max < sint (val (exposure s))
                          then exposure_max else val (exposure s))
      in s\<lparr>ctrl_handler := (ctrl_handler s)
             (V4L2_CID_EXPOSURE :=
                v4l2_ctrl_modify_range (exposure s) (minimum (exposure s)) (sint exposure_max)
                  (step (exposure s)) (sint exposure_def))\<rparr>)"

text \<open>
  The \<open>while\<close> loop of \<open>imx477_set_frame_length\<close>, on the pair of
  \<open>long_exp_shift\<close> and \<open>val\<close>.
\<close>

function frame_length_loop :: "u32 \<Rightarrow> u32 \<Rightarrow> u32 \<times> u32" where
  "frame_length_loop shift v =
     (if IMX477_FRAME_LENGTH_MAX < v then frame_length_loop (shift + 1) (drop_bit 1 v)
      else (shift, v))"
  by pat_completeness auto
termination
proof (relation "measure (\<lambda>(shift, v). unat v)")
  show "wf (measure (\<lambda>(shift, v). unat v))" by simp
next
  fix shift v :: u32
  assume "IMX477_FRAME_LENGTH_MAX < v"
  then have "0 < unat v"
    by (simp add: IMX477_FRAME_LENGTH_MAX_def word_less_nat_alt)
  then have "unat v div 2 < unat v" by simp
  then show "((shift + 1, drop_bit 1 v), (shift, v)) \<in> measure (\<lambda>(shift, v). unat v)"
    by (simp add: drop_bit_eq_div unat_div)
qed

declare frame_length_loop.simps [simp del]

definition imx477_set_frame_length :: "imx477 \<Rightarrow> u32 \<Rightarrow> int \<times> imx477" where
  "imx477_set_frame_length s v =
     (let (shift, v') = frame_length_loop 0 v;
          s1 = s\<lparr>long_exp_shift := shift\<rparr>;
          (ret, s2) = imx477_write_reg s1 IMX477_REG_FRAME_LENGTH IMX477_REG_VALUE_16BIT v'
      in if ret \<noteq> 0 then (ret, s2)
         else imx477_write_reg s2 IMX477_LONG_EXP_SHIFT_REG IMX477_REG_VALUE_08BIT
                (long_exp_shift s2))"

definition imx477_test_pattern_val :: "u32 list" where
  "imx477_test_pattern_val = [0, 2, 1, 3, 4]"

text \<open>
  \<open>imx477_set_ctrl\<close>, called with the control's new value already in \<open>ctrl->val\<close>.
  \<open>ctrl->val >> long_exp_shift\<close> shifts an \<open>int\<close>; the test-pattern menu has the five
  entries of \<open>imx477_test_pattern_val\<close>, so its value indexes the table in range. The
  \<open>pm_runtime_put\<close> at the end runs on every path.
\<close>

definition imx477_set_ctrl :: "imx477 \<Rightarrow> ctrl_id \<Rightarrow> int \<times> imx477" where
  "imx477_set_ctrl s0 cid =
     (let s = (if cid = V4L2_CID_VBLANK then imx477_adjust_exposure_range s0 else s0);
          v = val (ctrl_handler s cid);
          (ret, s') =
            (case cid of
               V4L2_CID_ANALOGUE_GAIN \<Rightarrow>
                 imx477_write_reg s IMX477_REG_ANALOG_GAIN IMX477_REG_VALUE_16BIT v
             | V4L2_CID_EXPOSURE \<Rightarrow>
                 imx477_write_reg s IMX477_REG_EXPOSURE IMX477_REG_VALUE_16BIT
                   (signed_drop_bit (unat (long_exp_shift s)) v)
             | V4L2_CID_DIGITAL_GAIN \<Rightarrow>
                 imx477_write_reg s IMX477_REG_DIGITAL_GAIN IMX477_REG_VALUE_16BIT v
             | V4L2_CID_TEST_PATTERN \<Rightarrow>
                 imx477_write_reg s IMX477_REG_TEST_PATTERN IMX477_REG_VALUE_16BIT
                   (imx477_test_pattern_val ! unat v)
             | V4L2_CID_TEST_PATTERN_RED \<Rightarrow>
                 imx477_write_reg s IMX477_REG_TEST_PATTERN_R IMX477_REG_VALUE_16BIT v
             | V4L2_CID_TEST_PATTERN_GREENR \<Rightarrow>
                 imx477_write_reg s IMX477_REG_TEST_PATTERN_GR IMX477_REG_VALUE_16BIT v
             | V4L2_CID_TEST_PATTERN_BLUE \<Rightarrow>
                 imx477_write_reg s IMX477_REG_TEST_PATTERN_B IMX477_REG_VALUE_16BIT v
             | V4L2_CID_TEST_PATTERN_GREENB \<Rightarrow>
                 imx477_write_reg s IMX477_REG_TEST_PATTERN_GB IMX477_REG_VALUE_16BIT v
             | V4L2_CID_HFLIP \<Rightarrow>
                 imx477_write_reg s IMX477_REG_ORIENTATION 1
                   (val (hflip s) OR push_bit 1 (val (vflip s)))
             | V4L2_CID_VFLIP \<Rightarrow>
                 imx477_write_reg s IMX477_REG_ORIENTATION 1
                   (val (hflip s) OR push_bit 1 (val (vflip s)))
             | V4L2_CID_VBLANK \<Rightarrow>
                 imx477_set_frame_length s (height (cur_mode s) + v)
             | V4L2_CID_HBLANK \<Rightarrow>
                 imx477_write_reg s IMX477_REG_LINE_LENGTH 2 (width (cur_mode s) + v)
             | _ \<Rightarrow> (- EINVAL, s))
      in (ret, pm_runtime_put s'))"

text \<open>
  Modelled from the spec: the control boundary \<open>set_control(id, value)\<close> is provided by
  the V4L2 control framework, outside the driver file. Under the device lock it rejects an
  out-of-range value (invalid argument) before any I/O and without any state change;
  otherwise it stores the requested value and applies it through the driver's
  \<open>imx477_set_ctrl\<close>. The stored value is not rolled back when the write fails.
\<close>

definition v4l2_s_ctrl :: "imx477 \<Rightarrow> ctrl_id \<Rightarrow> s32 \<Rightarrow> int \<times> imx477" where
  "v4l2_s_ctrl s0 cid v =
     (let s = mutex_lock s0; c = ctrl_handler s cid
      in if sint v < minimum c \<or> maximum c < sint v then (- EINVAL, mutex_unlock s)
         else
           (let s1 = s\<lparr>ctrl_handler := (ctrl_handler s)(cid := c\<lparr>val := v\<rparr>)\<rparr>;
                (ret, s2) = imx477_set_ctrl s1 cid
            in (ret, mutex_unlock s2)))"

text \<open>
  Modelled from the spec: \<open>__v4l2_ctrl_handler_setup\<close> (control framework) replays all
  control values: every control's current value is re-applied as if freshly set, in the
  order in which \<open>imx477_init_controls\<close> registers the controls of the spec's control
  table, and the first failure ends the replay with its error.
\<close>

definition replayed_ctrls :: "ctrl_id list" where
  "replayed_ctrls =
     [V4L2_CID_VBLANK, V4L2_CID_HBLANK, V4L2_CID_EXPOSURE, V4L2_CID_ANALOGUE_GAIN,
      V4L2_CID_DIGITAL_GAIN, V4L2_CID_HFLIP, V4L2_CID_VFLIP, V4L2_CID_TEST_PATTERN,
      V4L2_CID_TEST_PATTERN_RED, V4L2_CID_TEST_PATTERN_GREENR, V4L2_CID_TEST_PATTERN_BLUE,
      V4L2_CID_TEST_PATTERN_GREENB]"

fun ctrl_replay :: "imx477 \<Rightarrow> ctrl_id list \<Rightarrow> int \<times> imx477" where
  "ctrl_replay s [] = (0, s)"
| "ctrl_replay s (c # cs) =
     (case imx477_set_ctrl s c of
        (ret, s') \<Rightarrow> if ret \<noteq> 0 then (ret, s') else ctrl_replay s' cs)"

definition v4l2_ctrl_handler_setup :: "imx477 \<Rightarrow> int \<times> imx477" where
  "v4l2_ctrl_handler_setup s = ctrl_replay s replayed_ctrls"

section \<open>Streaming state machine\<close>

text \<open>The first block of \<open>__imx477_start_streaming\<close>: the common registers.\<close>

definition write_common_regs :: "imx477 \<Rightarrow> int \<times> imx477" where
  "write_common_regs s =
     (if \<not> common_regs_written s then
        (let (ret, s1) = imx477_write_regs s mode_common_regs;
             (ret', s2) = (if ret = 0 then imx477_write_regs s1 (extra_regs s1) else (ret, s1))
         in if ret' \<noteq> 0 then (ret', s2) else (0, s2\<lparr>common_regs_written := True\<rparr>))
      else (0, s))"

definition imx477_start_streaming :: "imx477 \<Rightarrow> int \<times> imx477" where
  "imx477_start_streaming s =
     (let (ret, s1) = write_common_regs s
      in if ret \<noteq> 0 then (ret, s1)
         else
           (let (ret, s2) = imx477_write_regs s1 (reg_list (cur_mode s1))
            in if ret \<noteq> 0 then (ret, s2)
               else
                 (let (ret, s3) = v4l2_ctrl_handler_setup s2
                  in if ret \<noteq> 0 then (ret, s3)
                     else imx477_write_reg s3 IMX477_REG_MODE_SELECT IMX477_REG_VALUE_08BIT
                            IMX477_MODE_STREAMING)))"

text \<open>
  \<open>imx477_s_stream\<close>. \<open>enable\<close> is a C \<open>int\<close>; \<open>streaming == enable\<close> compares the
  flag, promoted to 0 or 1, with it, and \<open>streaming = enable\<close> stores whether it is
  non-zero.
\<close>

definition imx477_s_stream :: "imx477 \<Rightarrow> int \<Rightarrow> int \<times> imx477" where
  "imx477_s_stream s0 enable =
     (let s = mutex_lock s0
      in if (if streaming s then 1 else 0) = enable then (0, mutex_unlock s)
         else
           (let (ret, s1) =
                  (if enable \<noteq> 0 then
                     (let (r, sa) = pm_runtime_get_sync s
                      in if r < 0 then (r, pm_runtime_put_noidle sa)
                         else
                           (let (r', sb) = imx477_start_streaming sa
                            in if r' \<noteq> 0 then (r', pm_runtime_put sb) else (0, sb)))
                   else (0, pm_runtime_put (imx477_stop_streaming s)))
            in if ret \<noteq> 0 then (ret, mutex_unlock s1)
               else
                 (0, mutex_unlock
                       (v4l2_ctrl_grab
                          (v4l2_ctrl_grab (s1\<lparr>streaming := (enable \<noteq> 0)\<rparr>)
                             V4L2_CID_VFLIP (enable \<noteq> 0))
                          V4L2_CID_HFLIP (enable \<noteq> 0)))))"

text \<open>The streaming boundary: \<open>start_streaming()\<close> and \<open>stop_streaming()\<close>.\<close>

definition start_streaming :: "imx477 \<Rightarrow> int \<times> imx477" where
  "start_streaming s = imx477_s_stream s 1"

definition stop_streaming :: "imx477 \<Rightarrow> int \<times> imx477" where
  "stop_streaming s = imx477_s_stream s 0"

section \<open>Notions used to state the properties\<close>

text \<open>
  The Manhattan distance between a mode's resolution and a requested one, on the
  integers (no wrap-around).
\<close>

definition manhattan :: "imx477_mode \<Rightarrow> v4l2_mbus_framefmt \<Rightarrow> int" where
  "manhattan m f = \<bar>uint (width m) - uint (fmt_width f)\<bar> + \<bar>uint (height m) - uint (fmt_height f)\<bar>"

text \<open>
  \<open>best_among modes f i b\<close>: among the first \<open>i\<close> entries of \<open>modes\<close>, entry \<open>b\<close>
  has the requested pixel format, is at minimal distance from the request among the entries
  that have it, and is the first such entry.
\<close>

definition best_among :: "imx477_mode list \<Rightarrow> v4l2_mbus_framefmt \<Rightarrow> nat \<Rightarrow> nat \<Rightarrow> bool" where
  "best_among modes f i b \<longleftrightarrow>
     b < i \<and> bus_fmt (modes ! b) = fmt_code f \<and>
     (\<forall>j<i. bus_fmt (modes ! j) = fmt_code f \<longrightarrow> manhattan (modes ! b) f \<le> manhattan (modes ! j) f) \<and>
     (\<forall>j<b. bus_fmt (modes ! j) = fmt_code f \<longrightarrow> manhattan (modes ! b) f < manhattan (modes ! j) f)"

text \<open>The bus message of one entry of a register program.\<close>

definition reg_msg :: "imx477_reg \<Rightarrow> i2c_xfer" where
  "reg_msg r = I2C_send (write_reg_buf (address r) 1 (ucast (reg_val r)))"

text \<open>\<open>clamp lo hi x\<close>: \<open>x\<close> capped at \<open>hi\<close>, then raised to \<open>lo\<close>.\<close>

definition clamp :: "nat \<Rightarrow> nat \<Rightarrow> nat \<Rightarrow> nat" where
  "clamp lo hi x = max lo (min hi x)"

text \<open>
  A device as \<open>imx477_probe\<close> leaves it: the first catalog mode is current,
  \<open>cfg_num\<close> is the size of the catalog, the controls have the ranges and defaults of
  \<open>imx477_init_controls\<close> and \<open>imx477_set_framing_limits\<close>, and the bus never fails.
\<close>

definition mk_ctrl :: "s32 \<Rightarrow> int \<Rightarrow> int \<Rightarrow> int \<Rightarrow> v4l2_ctrl" where
  "mk_ctrl v mn mx df =
     \<lparr>val = v, minimum = mn, maximum = mx, step = 1, default_value = df, grabbed = False\<rparr>"

definition probed_ctrls :: "ctrl_id \<Rightarrow> v4l2_ctrl" where
  "probed_ctrls cid =
     (case cid of
        V4L2_CID_LINK_FREQ \<Rightarrow> mk_ctrl 0 0 0 0
      | V4L2_CID_PIXEL_RATE \<Rightarrow> mk_ctrl 614400000 614400000 614400000 614400000
      | V4L2_CID_VBLANK \<Rightarrow> mk_ctrl 218 218 8380960 218
      | V4L2_CID_HBLANK \<Rightarrow> mk_ctrl 14800 14800 0xfff0 14800
      | V4L2_CID_EXPOSURE \<Rightarrow> mk_ctrl 0x640 4 3236 0x640
      | V4L2_CID_ANALOGUE_GAIN \<Rightarrow> mk_ctrl 0 0 978 0
      | V4L2_CID_DIGITAL_GAIN \<Rightarrow> mk_ctrl 0x0100 0x0100 0xffff 0x0100
      | V4L2_CID_HFLIP \<Rightarrow> mk_ctrl 0 0 1 0
      | V4L2_CID_VFLIP \<Rightarrow> mk_ctrl 0 0 1 0
      | V4L2_CID_TEST_PATTERN \<Rightarrow> mk_ctrl 0 0 4 0
      | V4L2_CID_TEST_PATTERN_RED \<Rightarrow> mk_ctrl 0x0fff 0 0x0fff 0x0fff
      | V4L2_CID_TEST_PATTERN_GREENR \<Rightarrow> mk_ctrl 0x0fff 0 0x0fff 0x0fff
      | V4L2_CID_TEST_PATTERN_BLUE \<Rightarrow> mk_ctrl 0x0fff 0 0x0fff 0x0fff
      | V4L2_CID_TEST_PATTERN_GREENB \<Rightarrow> mk_ctrl 0x0fff 0 0x0fff 0x0fff)"

definition probed_dev :: imx477 where
  "probed_dev =
     \<lparr>ctrl_handler = probed_ctrls, mutex_locked = False, streaming = False,
      power_on = False, cur_mode = mode_4056x3040, cfg_num = 3,
      common_regs_written = False, long_exp_shift = 0, extra_regs = [],
      i2c_log = [], i2c_fail = (\<lambda>k. False), i2c_rx = (\<lambda>k. []),
      rpm_usage = 0, rpm_suspended = False, regulator_err = 0, clk_err = 0,
      hw_powered = True\<rparr>"

text \<open>
  The probed device after a switch to the 1920x1080 mode, whose default vertical blanking
  is \<open>1233 - 1080 = 153\<close> and whose exposure value is still the initial \<open>0x640\<close>.
\<close>

definition dev_1080p :: imx477 where
  "dev_1080p = probed_dev
     \<lparr>cur_mode := mode_1920x1080,
      ctrl_handler := probed_ctrls (V4L2_CID_VBLANK := mk_ctrl 153 153 8382920 153)\<rparr>"

text \<open>
  \<open>same_device s s'\<close>: \<open>s'\<close> differs from \<open>s\<close> at most in the bus log, the control
  values and ranges, the long-exposure shift, the runtime-PM usage count, and in
  \<open>common_regs_written\<close> having been set.
\<close>

definition same_device :: "imx477 \<Rightarrow> imx477 \<Rightarrow> bool" where
  "same_device s s' \<longleftrightarrow>
     streaming s' = streaming s \<and> power_on s' = power_on s \<and>
     mutex_locked s' = mutex_locked s \<and> cur_mode s' = cur_mode s \<and>
     cfg_num s' = cfg_num s \<and> extra_regs s' = extra_regs s \<and>
     i2c_fail s' = i2c_fail s \<and> i2c_rx s' = i2c_rx s \<and>
     rpm_suspended s' = rpm_suspended s \<and> regulator_err s' = regulator_err s \<and>
     clk_err s' = clk_err s \<and> hw_powered s' = hw_powered s \<and>
     (common_regs_written s \<longrightarrow> common_regs_written s') \<and>
     (\<forall>c. grabbed (ctrl_handler s' c) = grabbed (ctrl_handler s c))"

text \<open>
  \<open>bus_run s s' ret\<close>: going from \<open>s\<close> to \<open>s'\<close> only appended exchanges to the bus
  log; when \<open>ret\<close> is 0 all of them succeeded, otherwise \<open>ret\<close> is \<open>-EIO\<close>, the last
  appended exchange is the one that failed and all before it succeeded.
\<close>

definition bus_run :: "imx477 \<Rightarrow> imx477 \<Rightarrow> int \<Rightarrow> bool" where
  "bus_run s s' ret \<longleftrightarrow>
     same_device s s' \<and>
     (\<exists>xs. i2c_log s' = i2c_log s @ xs \<and>
        (\<forall>k<length xs. i2c_fail s (length (i2c_log s) + k) \<longleftrightarrow> (ret \<noteq> 0 \<and> Suc k = length xs)) \<and>
        (ret \<noteq> 0 \<longrightarrow> ret = - EIO \<and> xs \<noteq> []))"

text \<open>
  \<open>programmed s\<close>: the device once the register programs of a stream start have gone
  through: the common program and the variant's extra registers if they were still
  pending, then the current mode's program.
\<close>

definition programmed :: "imx477 \<Rightarrow> imx477" where
  "programmed s =
     s\<lparr>common_regs_written := True,
       i2c_log := i2c_log s @
         (if common_regs_written s then []
          else map reg_msg mode_common_regs @ map reg_msg (extra_regs s)) @
         map reg_msg (reg_list (cur_mode s))\<rparr>"

text \<open>The bus exchanges that the control replay adds, starting from \<open>s\<close>.\<close>

definition replay_io :: "imx477 \<Rightarrow> i2c_xfer list" where
  "replay_io s = drop (length (i2c_log s)) (i2c_log (snd (v4l2_ctrl_handler_setup s)))"

text \<open>The probed device on a bus whose third exchange fails.\<close>

definition dev_bus_fault :: imx477 where
  "dev_bus_fault = probed_dev\<lparr>i2c_fail := (\<lambda>k. k = 2)\<rparr>"

text \<open>
  A streaming device: the probed device after a successful stream start, with the common
  registers written and both flip controls grabbed (bus log left empty).
\<close>

definition dev_streaming :: imx477 where
  "dev_streaming = probed_dev
     \<lparr>streaming := True, common_regs_written := True,
      ctrl_handler := probed_ctrls
        (V4L2_CID_HFLIP := (mk_ctrl 0 0 1 0)\<lparr>grabbed := True\<rparr>,
         V4L2_CID_VFLIP := (mk_ctrl 0 0 1 0)\<lparr>grabbed := True\<rparr>)\<rparr>"

text \<open>
  \<open>start_programs s\<close>: the register programs a stream start on \<open>s\<close> has to send, in
  order: the common program and the variant's extra registers when they are pending, then
  the current mode's program.
\<close>

definition start_programs :: "imx477 \<Rightarrow> i2c_xfer list" where
  "start_programs s =
     (if common_regs_written s then []
      else map reg_msg mode_common_regs @ map reg_msg (extra_regs s)) @
     map reg_msg (reg_list (cur_mode s))"

text \<open>
  The number of bus exchanges that applying a control issues when none of them fails:
  \<open>V4L2_CID_VBLANK\<close> writes the frame length and the long-exposure shift, every other
  replayed control writes one register.
\<close>

definition ctrl_exchanges :: "ctrl_id \<Rightarrow> nat" where
  "ctrl_exchanges c = (if c = V4L2_CID_VBLANK then 2 else 1)"

text \<open>
  \<open>start_exchanges s\<close>: the number of bus exchanges of a complete stream start on
  \<open>s\<close>: the register programs, the control replay and the stream-on write.
\<close>

definition start_exchanges :: "imx477 \<Rightarrow> nat" where
  "start_exchanges s =
     length (start_programs s) + sum_list (map ctrl_exchanges replayed_ctrls) + 1"

text \<open>
  The probed device on a bus on which every exchange succeeds except the 200th, which is
  the stream-on write of its first stream start (114 common registers, 72 mode registers
  and 13 control writes come first).
\<close>

definition dev_stream_on_fault :: imx477 where
  "dev_stream_on_fault = probed_dev\<lparr>i2c_fail := (\<lambda>k. k = 199)\<rparr>"

text \<open>The probed device, runtime-suspended, whose regulators fail to come up.\<close>

definition dev_power_fault :: imx477 where
  "dev_power_fault = probed_dev\<lparr>rpm_suspended := True, hw_powered := False, regulator_err := 5\<rparr>"


section \<open>Signed 32-bit arithmetic without overflow\<close>

lemma sint_eq_uint_small:
  fixes a :: u32
  assumes "uint a < 2 ^ 31"
  shows "sint a = uint a"
proof -
  have "sint a = signed_take_bit 31 (uint a)" by (simp add: sint_uint)
  also have "\<dots> = uint a"
    using assms uint_ge_0 [of a] by (intro signed_take_bit_int_eq_self) linarith+
  finally show ?thesis .
qed

lemma sint_sub_small:
  fixes a b :: u32
  assumes "uint a < 2 ^ 30" "uint b < 2 ^ 30"
  shows "sint (a - b) = uint a - uint b"
proof -
  have a: "sint a = uint a" using assms(1) by (intro sint_eq_uint_small) simp
  have b: "sint b = uint b" using assms(2) by (intro sint_eq_uint_small) simp
  have "sint (a - b) = signed_take_bit 31 (sint a - sint b)"
    by (simp add: sint_word_ariths)
  also have "\<dots> = uint a - uint b"
  proof -
    have A: "uint a < 1073741824" "uint b < 1073741824" using assms by simp_all
    have "- 2147483648 \<le> uint a - uint b" "uint a - uint b < 2147483648"
      using A uint_ge_0 [of a] uint_ge_0 [of b] by linarith+
    then show ?thesis unfolding a b by (intro signed_take_bit_int_eq_self) simp_all
  qed
  finally show ?thesis .
qed

lemma sint_neg_small:
  fixes x :: u32
  assumes "- (2 ^ 30) < sint x" "sint x < 2 ^ 30"
  shows "sint (- x) = - sint x"
proof -
  have "sint (- x) = signed_take_bit 31 (- sint x)"
    by (simp add: sint_word_ariths)
  also have "\<dots> = - sint x"
    using assms by (intro signed_take_bit_int_eq_self) simp_all
  finally show ?thesis .
qed

lemma kernel_abs_small:
  fixes a b :: u32
  assumes "uint a < 2 ^ 30" "uint b < 2 ^ 30"
  shows "sint (kernel_abs (a - b)) = \<bar>uint a - uint b\<bar>"
proof -
  have s: "sint (a - b) = uint a - uint b" using assms by (rule sint_sub_small)
  have "- (2 ^ 30) < sint (a - b)" "sint (a - b) < 2 ^ 30"
    unfolding s using assms uint_ge_0 [of a] uint_ge_0 [of b] by linarith+
  then have "sint (- (a - b)) = - sint (a - b)" by (rule sint_neg_small)
  then show ?thesis
    unfolding kernel_abs_def using s by (simp del: minus_diff_eq)
qed

lemma sint_add_small:
  fixes x y :: u32
  assumes "0 \<le> sint x" "sint x < 2 ^ 30" "0 \<le> sint y" "sint y < 2 ^ 30"
  shows "sint (x + y) = sint x + sint y"
proof -
  have "sint (x + y) = signed_take_bit 31 (sint x + sint y)"
    by (simp add: sint_word_ariths)
  also have "\<dots> = sint x + sint y"
    using assms by (intro signed_take_bit_int_eq_self) simp_all
  finally show ?thesis .
qed

section \<open>The best-fit loop\<close>

lemma find_best_fit_loop_no_match:
  "\<forall>j. i \<le> j \<and> j < n \<longrightarrow> bus_fmt (modes ! j) \<noteq> fmt_code f \<Longrightarrow> find_best_fit_loop modes n f i b d = b"
proof (induction modes n f i b d rule: find_best_fit_loop.induct)
  case (1 modes n f i b d)
  show ?case
  proof (cases "i < n")
    case True
    with 1 show ?thesis
      by (subst find_best_fit_loop.simps) (auto simp: Let_def)
  next
    case False
    then show ?thesis by (subst find_best_fit_loop.simps) simp
  qed
qed

lemma reso_dist_small:
  assumes "uint (width m) < 2 ^ 30" "uint (height m) < 2 ^ 30"
    "uint (fmt_width f) < 2 ^ 30" "uint (fmt_height f) < 2 ^ 30"
  shows "sint (imx477_get_reso_dist m f) = manhattan m f"
proof -
  let ?x = "kernel_abs (width m - fmt_width f)"
  let ?y = "kernel_abs (height m - fmt_height f)"
  have x: "sint ?x = \<bar>uint (width m) - uint (fmt_width f)\<bar>"
    using assms by (intro kernel_abs_small)
  have y: "sint ?y = \<bar>uint (height m) - uint (fmt_height f)\<bar>"
    using assms by (intro kernel_abs_small)
  have A: "uint (width m) < 1073741824" "uint (height m) < 1073741824"
    "uint (fmt_width f) < 1073741824" "uint (fmt_height f) < 1073741824" using assms by simp_all
  have bx: "sint ?x < 1073741824" unfolding x
    using A uint_ge_0 [of "width m"] uint_ge_0 [of "fmt_width f"] by linarith
  have "by": "sint ?y < 1073741824" unfolding y
    using A uint_ge_0 [of "height m"] uint_ge_0 [of "fmt_height f"] by linarith
  have "sint (?x + ?y) = sint ?x + sint ?y"
    using bx "by" x y by (intro sint_add_small) simp_all
  then show ?thesis
    by (simp add: imx477_get_reso_dist_def manhattan_def x y)
qed

lemma manhattan_nonneg: "0 \<le> manhattan m f"
  by (simp add: manhattan_def)

lemma find_best_fit_loop_best:
  assumes "\<forall>j<n. sint (imx477_get_reso_dist (modes ! j) f) = manhattan (modes ! j) f"
    and "i \<le> n"
    and "(d = - 1 \<and> (\<forall>j<i. bus_fmt (modes ! j) \<noteq> fmt_code f)) \<or>
         (d \<noteq> - 1 \<and> sint d = manhattan (modes ! b) f \<and> best_among modes f i b)"
    and "\<exists>j<n. bus_fmt (modes ! j) = fmt_code f"
  shows "best_among modes f n (find_best_fit_loop modes n f i b d)"
  using assms
proof (induction modes n f i b d rule: find_best_fit_loop.induct)
  case (1 modes n f i b d)
  show ?case
  proof (cases "i < n")
    case False
    with 1(4) have "i = n" by simp
    with 1(5,6) have "best_among modes f n b" by auto
    with False show ?thesis by (subst find_best_fit_loop.simps) simp
  next
    case True
    let ?dist = "imx477_get_reso_dist (modes ! i) f"
    have D: "sint ?dist = manhattan (modes ! i) f" using 1(3) True by simp
    have nn: "?dist \<noteq> - 1"
    proof
      assume "?dist = - 1"
      then have "sint ?dist = - 1" by simp
      with D manhattan_nonneg [of "modes ! i" f] show False by simp
    qed
    show ?thesis
    proof (cases "(d = - 1 \<or> sint ?dist < sint d) \<and> bus_fmt (modes ! i) = fmt_code f")
      case take: True
      have inv: "best_among modes f (i + 1) i"
        using 1(5) take D
        by (auto simp: best_among_def less_Suc_eq)
      have "best_among modes f n (find_best_fit_loop modes n f (i + 1) i ?dist)"
        using 1(1) [OF True refl take 1(3)] True inv nn D 1(6) by simp
      with True take show ?thesis
        by (subst find_best_fit_loop.simps) (simp add: Let_def)
    next
      case skip: False
      have inv: "(d = - 1 \<and> (\<forall>j<i + 1. bus_fmt (modes ! j) \<noteq> fmt_code f)) \<or>
         (d \<noteq> - 1 \<and> sint d = manhattan (modes ! b) f \<and> best_among modes f (i + 1) b)"
        using 1(5) skip D
        by (auto simp: best_among_def less_Suc_eq)
      have "best_among modes f n (find_best_fit_loop modes n f (i + 1) b d)"
        using 1(2) [OF True refl skip 1(3)] True inv 1(6) by simp
      with True skip show ?thesis
        by (subst find_best_fit_loop.simps) (auto simp: Let_def)
    qed
  qed
qed

section \<open>Register writes on the bus\<close>

lemma length_write_reg_buf: "len \<le> 4 \<Longrightarrow> length (write_reg_buf reg len v) = unat len + 2"
proof -
  assume "len \<le> 4"
  then have "unat len \<le> 4" by (simp add: word_le_nat_alt)
  then show ?thesis
    by (simp add: write_reg_buf_def put_unaligned_be16_def put_unaligned_be32_def)
qed

lemma imx477_write_reg_einval: "4 < len \<Longrightarrow> imx477_write_reg s reg len v = (- EINVAL, s)"
  by (simp add: imx477_write_reg_def)

lemma imx477_write_reg_sends:
  assumes "len \<le> 4"
  shows "imx477_write_reg s reg len v =
           (if i2c_fail s (length (i2c_log s)) then - EIO else 0,
            s\<lparr>i2c_log := i2c_log s @ [I2C_send (write_reg_buf reg len v)]\<rparr>)"
proof -
  have a: "\<not> 4 < len" using assms by (simp add: not_less)
  have b: "- EREMOTEIO \<noteq> int (unat len + 2)"
    unfolding EREMOTEIO_def by linarith
  show ?thesis
    using a b length_write_reg_buf [OF assms, of reg v]
    by (simp add: imx477_write_reg_def i2c_master_send_def Let_def)
qed

lemma imx477_write_regs_ok:
  "\<forall>k. \<not> i2c_fail s k \<Longrightarrow>
     imx477_write_regs s regs = (0, s\<lparr>i2c_log := i2c_log s @ map reg_msg regs\<rparr>)"
proof (induction regs arbitrary: s)
  case Nil
  then show ?case by simp
next
  case (Cons r regs)
  let ?s' = "s\<lparr>i2c_log := i2c_log s @ [reg_msg r]\<rparr>"
  have w: "imx477_write_reg s (address r) 1 (ucast (reg_val r)) = (0, ?s')"
    using Cons.prems by (simp add: imx477_write_reg_sends reg_msg_def)
  have "\<forall>k. \<not> i2c_fail ?s' k" using Cons.prems by simp
  from Cons.IH [OF this] w show ?case by simp
qed

lemma imx477_write_regs_log:
  "imx477_write_regs s regs = (ret, s') \<Longrightarrow>
     \<exists>n \<le> length regs. s' = s\<lparr>i2c_log := i2c_log s @ map reg_msg (take n regs)\<rparr> \<and>
        (ret = 0 \<longrightarrow> n = length regs) \<and> (ret \<noteq> 0 \<longrightarrow> ret = - EIO)"
proof (induction regs arbitrary: s)
  case Nil
  then show ?case by auto
next
  case (Cons r regs)
  let ?s1 = "s\<lparr>i2c_log := i2c_log s @ [reg_msg r]\<rparr>"
  show ?case
  proof (cases "i2c_fail s (length (i2c_log s))")
    case True
    then have "imx477_write_regs s (r # regs) = (- EIO, ?s1)"
      by (simp add: imx477_write_reg_sends reg_msg_def EIO_def)
    with Cons.prems have "ret = - EIO" "s' = ?s1" by simp_all
    then show ?thesis
      by (intro exI [of _ 1]) (simp add: EIO_def)
  next
    case False
    then have "imx477_write_regs s (r # regs) = imx477_write_regs ?s1 regs"
      by (simp add: imx477_write_reg_sends reg_msg_def)
    with Cons.prems have "imx477_write_regs ?s1 regs = (ret, s')" by simp
    from Cons.IH [OF this] obtain n where n: "n \<le> length regs"
      "s' = ?s1\<lparr>i2c_log := i2c_log ?s1 @ map reg_msg (take n regs)\<rparr>"
      "ret = 0 \<longrightarrow> n = length regs" "ret \<noteq> 0 \<longrightarrow> ret = - EIO" by blast
    then show ?thesis
      by (intro exI [of _ "Suc n"]) simp
  qed
qed

lemmas catalog_defs = supported_modes_def mode_4056x3040_def mode_3840x2160_def mode_1920x1080_def
  MEDIA_BUS_FMT_SRGGB10_1X10_def

lemma supported_modes_small:
  "\<forall>j<length supported_modes. uint (width (supported_modes ! j)) < 2 ^ 30 \<and>
      uint (height (supported_modes ! j)) < 2 ^ 30"
  by (simp add: catalog_defs less_Suc_eq numeral_3_eq_3)

lemma find_best_fit_index_best:
  assumes "cfg_num s = length supported_modes"
    and "uint (fmt_width f) < 2 ^ 30" and "uint (fmt_height f) < 2 ^ 30"
    and "\<exists>j<length supported_modes. bus_fmt (supported_modes ! j) = fmt_code f"
  shows "best_among supported_modes f (length supported_modes) (find_best_fit_index s f)"
proof -
  have d: "\<forall>j<length supported_modes.
      sint (imx477_get_reso_dist (supported_modes ! j) f) = manhattan (supported_modes ! j) f"
    using supported_modes_small assms(2,3) by (auto intro: reso_dist_small)
  show ?thesis
    unfolding find_best_fit_index_def assms(1)
    by (rule find_best_fit_loop_best [OF d _ _ assms(4)]) simp_all
qed

section \<open>Mode negotiation: properties\<close>

text \<open>
  C2 (as amended). For every request whose width and height are below \<open>2^30\<close> and whose
  pixel format matches at least one catalog entry, \<open>imx477_find_best_fit\<close> returns the
  catalog entry that, among the entries of the requested pixel format, minimises
  \<open>|width - requested_width| + |height - requested_height|\<close>, the lowest catalog index
  winning a tie; and a request for exactly a catalog mode's format, width and height
  returns that mode.
\<close>

theorem find_best_fit_minimises:
  assumes "cfg_num s = length supported_modes"
    and "uint (fmt_width f) < 2 ^ 30" and "uint (fmt_height f) < 2 ^ 30"
    and "\<exists>m \<in> set supported_modes. bus_fmt m = fmt_code f"
  shows "imx477_find_best_fit s f = supported_modes ! find_best_fit_index s f \<and>
         best_among supported_modes f (length supported_modes) (find_best_fit_index s f) \<and>
         (\<forall>m \<in> set supported_modes.
            bus_fmt m = fmt_code f \<and> width m = fmt_width f \<and> height m = fmt_height f \<longrightarrow>
            imx477_find_best_fit s f = m)"
proof -
  let ?k = "find_best_fit_index s f"
  have "\<exists>j<length supported_modes. bus_fmt (supported_modes ! j) = fmt_code f"
    using assms(4) by (auto simp: in_set_conv_nth)
  with assms(1-3) have best: "best_among supported_modes f (length supported_modes) ?k"
    by (rule find_best_fit_index_best)
  have exact: "imx477_find_best_fit s f = m"
    if m: "m \<in> set supported_modes" "bus_fmt m = fmt_code f" "width m = fmt_width f"
      "height m = fmt_height f" for m
  proof -
    from m(1) obtain j where j: "j < length supported_modes" "supported_modes ! j = m"
      by (auto simp: in_set_conv_nth)
    have "manhattan m f = 0" using m by (simp add: manhattan_def)
    with best j m(2) have "manhattan (supported_modes ! ?k) f \<le> 0"
      by (auto simp: best_among_def)
    then have z: "uint (width (supported_modes ! ?k)) = uint (width m)"
      "uint (height (supported_modes ! ?k)) = uint (height m)"
      using m(3,4) by (simp_all add: manhattan_def)
    have k: "?k < length supported_modes" using best by (simp add: best_among_def)
    have "supported_modes ! ?k = m"
      using k j z
      by (auto simp: catalog_defs less_Suc_eq numeral_3_eq_3)
    then show ?thesis by (simp add: imx477_find_best_fit_def)
  qed
  show ?thesis using best exact by (simp add: imx477_find_best_fit_def)
qed

lemma all_less_Suc3:
  "(\<forall>j<Suc (Suc (Suc 0)). P j) \<longleftrightarrow> P 0 \<and> P (Suc 0) \<and> P (Suc (Suc 0))"
  by (auto simp: less_Suc_eq)

theorem find_best_fit_minimises_witness:
  "cfg_num probed_dev = length supported_modes \<and>
   uint (fmt_width \<lparr>fmt_width = 1920, fmt_height = 1088, fmt_code = 0x300f\<rparr>) < 2 ^ 30 \<and>
   uint (fmt_height \<lparr>fmt_width = 1920, fmt_height = 1088, fmt_code = 0x300f\<rparr>) < 2 ^ 30 \<and>
   bus_fmt (supported_modes ! 2) = fmt_code \<lparr>fmt_width = 1920, fmt_height = 1088, fmt_code = 0x300f\<rparr> \<and>
   best_among supported_modes \<lparr>fmt_width = 1920, fmt_height = 1088, fmt_code = 0x300f\<rparr>
     (length supported_modes)
     (find_best_fit_index probed_dev \<lparr>fmt_width = 1920, fmt_height = 1088, fmt_code = 0x300f\<rparr>)"
  using find_best_fit_minimises [of probed_dev "\<lparr>fmt_width = 1920, fmt_height = 1088, fmt_code = 0x300f\<rparr>"]
  by (simp add: probed_dev_def catalog_defs)

text \<open>
  The example scenario of the spec: a request for 1920x1088 in the catalog's pixel format
  is answered with the 1920x1080 mode.
\<close>

lemma find_best_fit_example_1088:
  "imx477_find_best_fit probed_dev \<lparr>fmt_width = 1920, fmt_height = 1088, fmt_code = 0x300f\<rparr>
     = mode_1920x1080"
  by (simp add: imx477_find_best_fit_def find_best_fit_index_def probed_dev_def
      find_best_fit_loop.simps imx477_get_reso_dist_def kernel_abs_def catalog_defs)

text \<open>
  Without the bound the unsigned subtraction wraps: for a requested width of
  \<open>0xFFFFFFFF\<close> the 1920x1080 mode is returned, although the 3840x2160 mode has the
  requested pixel format and is strictly nearer.
\<close>

theorem find_best_fit_minimises_counterexample:
  "bus_fmt mode_3840x2160 = fmt_code \<lparr>fmt_width = 0xFFFFFFFF, fmt_height = 1080, fmt_code = 0x300f\<rparr> \<and>
   imx477_find_best_fit probed_dev \<lparr>fmt_width = 0xFFFFFFFF, fmt_height = 1080, fmt_code = 0x300f\<rparr>
     = mode_1920x1080 \<and>
   manhattan mode_3840x2160 \<lparr>fmt_width = 0xFFFFFFFF, fmt_height = 1080, fmt_code = 0x300f\<rparr>
     < manhattan mode_1920x1080 \<lparr>fmt_width = 0xFFFFFFFF, fmt_height = 1080, fmt_code = 0x300f\<rparr>"
  by (simp add: imx477_find_best_fit_def find_best_fit_index_def probed_dev_def
      find_best_fit_loop.simps imx477_get_reso_dist_def kernel_abs_def manhattan_def catalog_defs)

text \<open>
  C5 (as amended). If the requested pixel format matches no catalog entry,
  \<open>imx477_find_best_fit\<close> does not fail: it returns the first catalog entry, whose
  pixel format differs from the requested one.
\<close>

theorem find_best_fit_no_match_default:
  assumes "cfg_num s = length supported_modes"
    and "\<forall>m \<in> set supported_modes. bus_fmt m \<noteq> fmt_code f"
  shows "imx477_find_best_fit s f = supported_modes ! 0 \<and>
         bus_fmt (imx477_find_best_fit s f) \<noteq> fmt_code f"
proof -
  have "\<forall>j. 0 \<le> j \<and> j < length supported_modes \<longrightarrow> bus_fmt (supported_modes ! j) \<noteq> fmt_code f"
    using assms(2) by simp
  then have "find_best_fit_index s f = 0"
    unfolding find_best_fit_index_def assms(1) by (rule find_best_fit_loop_no_match)
  then have r: "imx477_find_best_fit s f = supported_modes ! 0"
    by (simp add: imx477_find_best_fit_def)
  have "supported_modes ! 0 \<in> set supported_modes" by (simp add: supported_modes_def)
  with assms(2) r show ?thesis by simp
qed

theorem find_best_fit_no_match_default_witness:
  "cfg_num probed_dev = length supported_modes \<and>
   bus_fmt mode_4056x3040 \<noteq> 0x3007 \<and> bus_fmt mode_3840x2160 \<noteq> 0x3007 \<and> bus_fmt mode_1920x1080 \<noteq> 0x3007 \<and>
   imx477_find_best_fit probed_dev \<lparr>fmt_width = 1920, fmt_height = 1080, fmt_code = 0x3007\<rparr> = mode_4056x3040"
  using find_best_fit_no_match_default [of probed_dev "\<lparr>fmt_width = 1920, fmt_height = 1080, fmt_code = 0x3007\<rparr>"]
  by (simp add: probed_dev_def catalog_defs)

text \<open>
  No catalog entry has pixel format \<open>0x3007\<close>, and a request for it is answered with
  the 4056x3040 mode instead of an error.
\<close>

theorem find_best_fit_unsupported_counterexample:
  "bus_fmt mode_4056x3040 \<noteq> 0x3007 \<and> bus_fmt mode_3840x2160 \<noteq> 0x3007 \<and> bus_fmt mode_1920x1080 \<noteq> 0x3007 \<and>
   imx477_find_best_fit probed_dev \<lparr>fmt_width = 1920, fmt_height = 1080, fmt_code = 0x3007\<rparr> = mode_4056x3040"
  by (simp add: imx477_find_best_fit_def find_best_fit_index_def probed_dev_def
      find_best_fit_loop.simps imx477_get_reso_dist_def kernel_abs_def catalog_defs)

section \<open>Register transport: properties\<close>

lemma word_le_4_cases:
  fixes len :: u32
  assumes "len \<le> 4"
  shows "len = 0 \<or> len = 1 \<or> len = 2 \<or> len = 3 \<or> len = 4"
proof -
  have "unat len \<le> 4" using assms by (simp add: word_le_nat_alt)
  then have "unat len = 0 \<or> unat len = 1 \<or> unat len = 2 \<or> unat len = 3 \<or> unat len = 4"
    by linarith
  then show ?thesis
    by (auto simp: word_unat_eq_iff)
qed

lemma write_reg_buf_1: "write_reg_buf reg 1 v = put_unaligned_be16 reg @ [ucast v]"
proof -
  have "(ucast (drop_bit 24 (push_bit 24 v)) :: u8) = ucast v"
    by (rule bit_word_eqI) (auto simp: bit_simps)
  then show ?thesis
    by (simp add: write_reg_buf_def put_unaligned_be16_def put_unaligned_be32_def)
qed

lemma write_reg_buf_2:
  "write_reg_buf reg 2 v = put_unaligned_be16 reg @ put_unaligned_be16 (ucast v)"
proof -
  have "(ucast (drop_bit 24 (push_bit 16 v)) :: u8) = ucast (drop_bit 8 (ucast v :: u16))"
    by (rule bit_word_eqI) (auto simp: bit_simps)
  moreover have "(ucast (drop_bit 16 (push_bit 16 v)) :: u8) = ucast (ucast v :: u16)"
    by (rule bit_word_eqI) (auto simp: bit_simps)
  ultimately show ?thesis
    by (simp add: write_reg_buf_def put_unaligned_be16_def put_unaligned_be32_def)
qed

lemma write_reg_buf_low_bits:
  assumes "len \<le> 4"
  shows "write_reg_buf reg len (take_bit (8 * unat len) v) = write_reg_buf reg len v"
proof -
  have b3: "(ucast (drop_bit 24 (push_bit 24 (take_bit 8 v))) :: u8) = ucast (drop_bit 24 (push_bit 24 v))"
    by (rule bit_word_eqI) (auto simp: bit_simps)
  have c2: "(ucast (drop_bit 24 (push_bit 16 (take_bit 16 v))) :: u8) = ucast (drop_bit 24 (push_bit 16 v))"
    "(ucast (drop_bit 16 (push_bit 16 (take_bit 16 v))) :: u8) = ucast (drop_bit 16 (push_bit 16 v))"
    by (rule bit_word_eqI; auto simp: bit_simps)+
  have c3: "(ucast (drop_bit 24 (push_bit 8 (take_bit 24 v))) :: u8) = ucast (drop_bit 24 (push_bit 8 v))"
    "(ucast (drop_bit 16 (push_bit 8 (take_bit 24 v))) :: u8) = ucast (drop_bit 16 (push_bit 8 v))"
    "(ucast (drop_bit 8 (push_bit 8 (take_bit 24 v))) :: u8) = ucast (drop_bit 8 (push_bit 8 v))"
    by (rule bit_word_eqI; auto simp: bit_simps)+
  have c4: "take_bit 32 v = v" by (simp add: take_bit_word_eq_self)
  from word_le_4_cases [OF assms] show ?thesis
    by (elim disjE) (simp_all add: write_reg_buf_def put_unaligned_be16_def put_unaligned_be32_def b3 c2 c3 c4)
qed

lemma imx477_read_reg_einval: "4 < len \<Longrightarrow> imx477_read_reg s reg len = (- EINVAL, None, s)"
  by (simp add: imx477_read_reg_def)

text \<open>
  C9 (as amended). For every register read or write, a width greater than 4 bytes is
  rejected with \<open>-EINVAL\<close> before any bus I/O. A write of width at most 4 is never
  rejected for its value: the message is handed to the bus, and a value larger than the
  addressed register width is truncated to its low \<open>8 * len\<close> bits on the wire.
\<close>

theorem reg_width_checked_value_truncated:
  "(4 < len \<longrightarrow>
      imx477_write_reg s reg len v = (- EINVAL, s) \<and>
      imx477_read_reg s reg len = (- EINVAL, None, s)) \<and>
   (len \<le> 4 \<longrightarrow>
      fst (imx477_write_reg s reg len v) \<noteq> - EINVAL \<and>
      i2c_log (snd (imx477_write_reg s reg len v)) =
        i2c_log s @ [I2C_send (write_reg_buf reg len v)] \<and>
      write_reg_buf reg len v = write_reg_buf reg len (take_bit (8 * unat len) v))"
  by (simp add: imx477_write_reg_einval imx477_read_reg_einval imx477_write_reg_sends
      write_reg_buf_low_bits EINVAL_def EIO_def)

theorem reg_width_checked_value_truncated_witness:
  "(4 < (5::u32) \<and>
      imx477_write_reg probed_dev 0x0100 5 1 = (- EINVAL, probed_dev) \<and>
      imx477_read_reg probed_dev 0x0016 5 = (- EINVAL, None, probed_dev)) \<and>
   ((2::u32) \<le> 4 \<and>
      fst (imx477_write_reg probed_dev 0x0202 2 0x12345) \<noteq> - EINVAL \<and>
      i2c_log (snd (imx477_write_reg probed_dev 0x0202 2 0x12345)) =
        i2c_log probed_dev @ [I2C_send (write_reg_buf 0x0202 2 0x12345)] \<and>
      write_reg_buf 0x0202 2 0x12345 =
        write_reg_buf 0x0202 2 (take_bit (8 * unat (2::u32)) 0x12345))"
  using reg_width_checked_value_truncated [of 5 probed_dev "0x0100" 1]
    reg_width_checked_value_truncated [of 5 probed_dev "0x0016" 1]
    reg_width_checked_value_truncated [of 2 probed_dev "0x0202" "0x12345"]
  by simp

text \<open>
  The value \<open>0x1ff\<close> does not fit the one-byte register it is written to; the write
  succeeds and puts \<open>0xff\<close> on the wire.
\<close>

theorem reg_value_rejected_counterexample:
  "(0xff :: u32) < 0x1ff \<and>
   imx477_write_reg probed_dev 0x0100 1 0x1ff =
     (0, probed_dev\<lparr>i2c_log := [I2C_send [0x01, 0x00, 0xff]]\<rparr>)"
  by (simp add: imx477_write_reg_def i2c_master_send_def write_reg_buf_def
      put_unaligned_be16_def put_unaligned_be32_def probed_dev_def Let_def)

section \<open>Timing engine: properties\<close>

lemma unat_lt_2p32: "unat (x :: u32) < 4294967296"
  using unsigned_less [of x, where 'a = nat] by simp

lemma unat_ucast_32_64: "unat (ucast (x :: u32) :: u64) = unat x"
proof -
  have "unat x < 2 ^ 64" using unat_lt_2p32 [of x] by simp
  then show ?thesis by (simp add: unsigned_ucast_eq take_bit_nat_eq_self)
qed

lemma unat_ucast_64_32: "unat (x :: u64) < 2 ^ 32 \<Longrightarrow> unat (ucast x :: u32) = unat x"
  by (simp add: unsigned_ucast_eq take_bit_nat_eq_self)

lemma do_div_nat:
  assumes "0 < unat base" "unat base < 2 ^ 32"
  shows "\<exists>q. do_div n base = Some q \<and> unat q = unat n div unat base"
proof -
  have "unat (ucast base :: u32) = unat base"
    using assms(2) by (rule unat_ucast_64_32)
  moreover from this assms(1) have "(ucast base :: u32) \<noteq> 0"
    by (auto simp: unat_eq_0 [symmetric] simp del: unat_eq_0)
  ultimately show ?thesis
    by (simp add: do_div_def Let_def unat_div unat_ucast_32_64)
qed

lemma frame_length_operands:
  "unat (ucast (a :: u32) * IMX477_PIXEL_RATE) = unat a * unat IMX477_PIXEL_RATE"
  "unat ((ucast (d :: u32) :: u64) * ucast (l :: u32)) = unat d * unat l"
proof -
  have "unat a * 614400000 < 4294967296 * 614400000"
    using unat_lt_2p32 [of a] by simp
  then have "unat a * 614400000 < 2 ^ 64" by simp
  then show "unat (ucast a * IMX477_PIXEL_RATE) = unat a * unat IMX477_PIXEL_RATE"
    by (simp add: IMX477_PIXEL_RATE_def unat_word_ariths unat_ucast_32_64)
next
  have "unat d * unat l < 4294967296 * 4294967296"
    using unat_lt_2p32 [of d] unat_lt_2p32 [of l] by (intro mult_strict_mono) simp_all
  then have "unat d * unat l < 2 ^ 64" by simp
  then show "unat ((ucast d :: u64) * ucast l) = unat d * unat l"
    by (simp add: unat_word_ariths unat_ucast_32_64)
qed

lemma imx477_get_frame_length_nat:
  assumes "0 < unat (denominator t) * unat (line_length_pix m)"
    and "unat (denominator t) * unat (line_length_pix m) < 2 ^ 32"
  shows "\<exists>r. imx477_get_frame_length m t = Some r \<and>
             unat r = clamp (unat (height m)) (unat IMX477_FRAME_LENGTH_MAX)
                        ((unat (numerator t) * unat IMX477_PIXEL_RATE) div
                         (unat (denominator t) * unat (line_length_pix m)))"
proof -
  let ?n = "ucast (numerator t) * IMX477_PIXEL_RATE"
  let ?d = "(ucast (denominator t) :: u64) * ucast (line_length_pix m)"
  from do_div_nat [of ?d ?n] assms obtain q where q: "do_div ?n ?d = Some q"
    "unat q = (unat (numerator t) * unat IMX477_PIXEL_RATE) div
              (unat (denominator t) * unat (line_length_pix m))"
    by (auto simp: frame_length_operands)
  let ?q' = "if ucast IMX477_FRAME_LENGTH_MAX < q then ucast IMX477_FRAME_LENGTH_MAX else q"
  have q': "unat ?q' = min (unat IMX477_FRAME_LENGTH_MAX) (unat q)"
    by (simp add: word_less_nat_alt unat_ucast_32_64 min_def)
  have "unat ?q' \<le> 65500" unfolding q' by (simp add: IMX477_FRAME_LENGTH_MAX_def)
  then have "unat ?q' < 2 ^ 32" by simp
  then have c: "unat (ucast ?q' :: u32) = unat ?q'"
    by (rule unat_ucast_64_32)
  have "unat (max (ucast ?q' :: u32) (height m)) = max (unat ?q') (unat (height m))"
    unfolding c [symmetric] by (simp add: max_def word_le_nat_alt)
  then show ?thesis
    using q q' by (simp add: imx477_get_frame_length_def Let_def clamp_def max.commute)
qed

lemmas frame_length_eval = imx477_get_frame_length_def do_div_def IMX477_PIXEL_RATE_def
  IMX477_FRAME_LENGTH_MAX_def mode_4056x3040_def mode_3840x2160_def mode_1920x1080_def Let_def

lemma catalog_frame_lengths:
  "imx477_get_frame_length mode_4056x3040 (max_fps mode_4056x3040) = Some 3258"
  "imx477_get_frame_length mode_3840x2160 (max_fps mode_3840x2160) = Some 2285"
  "imx477_get_frame_length mode_1920x1080 (max_fps mode_1920x1080) = Some 1233"
  by (simp_all add: frame_length_eval)

text \<open>
  C3 (as amended). For every mode and every frame interval whose divisor
  \<open>denominator * line_length_pix\<close> is non-zero and below \<open>2^32\<close>,
  \<open>imx477_get_frame_length\<close> returns
  \<open>floor(numerator * pixel_rate / (denominator * line_length_pix))\<close>, by truncating
  integer division, capped at \<open>IMX477_FRAME_LENGTH_MAX\<close> (a larger value is capped,
  not an error) and then raised to the mode's height. In particular, for every mode of the
  catalog the frame length of its maximal frame rate is at least the mode's height and at
  most \<open>IMX477_FRAME_LENGTH_MAX\<close>.
\<close>

theorem compute_frame_length_clamped:
  "(0 < unat (denominator t) * unat (line_length_pix m) \<and>
    unat (denominator t) * unat (line_length_pix m) < 2 ^ 32 \<longrightarrow>
      (\<exists>r. imx477_get_frame_length m t = Some r \<and>
            unat r = clamp (unat (height m)) (unat IMX477_FRAME_LENGTH_MAX)
                       ((unat (numerator t) * unat IMX477_PIXEL_RATE) div
                        (unat (denominator t) * unat (line_length_pix m))))) \<and>
   (\<forall>M \<in> set supported_modes.
      \<exists>r. imx477_get_frame_length M (max_fps M) = Some r \<and>
          height M \<le> r \<and> r \<le> IMX477_FRAME_LENGTH_MAX)"
proof (intro conjI impI)
  assume "0 < unat (denominator t) * unat (line_length_pix m) \<and>
    unat (denominator t) * unat (line_length_pix m) < 2 ^ 32"
  then show "\<exists>r. imx477_get_frame_length m t = Some r \<and>
            unat r = clamp (unat (height m)) (unat IMX477_FRAME_LENGTH_MAX)
                       ((unat (numerator t) * unat IMX477_PIXEL_RATE) div
                        (unat (denominator t) * unat (line_length_pix m)))"
    by (intro imx477_get_frame_length_nat) simp_all
next
  show "\<forall>M \<in> set supported_modes.
      \<exists>r. imx477_get_frame_length M (max_fps M) = Some r \<and>
          height M \<le> r \<and> r \<le> IMX477_FRAME_LENGTH_MAX"
    unfolding supported_modes_def
    by (simp add: catalog_frame_lengths)
      (simp add: mode_4056x3040_def mode_3840x2160_def mode_1920x1080_def
         IMX477_FRAME_LENGTH_MAX_def)
qed

theorem compute_frame_length_clamped_witness:
  "(0 < unat (denominator \<lparr>numerator = 1, denominator = 1\<rparr>) *
         unat (line_length_pix mode_1920x1080) \<and>
    unat (denominator \<lparr>numerator = 1, denominator = 1\<rparr>) *
      unat (line_length_pix mode_1920x1080) < 2 ^ 32 \<and>
    imx477_get_frame_length mode_1920x1080 \<lparr>numerator = 1, denominator = 1\<rparr> =
      Some 0xffdc \<and>
    clamp (unat (height mode_1920x1080)) (unat IMX477_FRAME_LENGTH_MAX)
        ((unat (numerator \<lparr>numerator = 1, denominator = 1\<rparr>) * unat IMX477_PIXEL_RATE) div
         (unat (denominator \<lparr>numerator = 1, denominator = 1\<rparr>) *
          unat (line_length_pix mode_1920x1080))) = 0xffdc) \<and>
   (mode_3840x2160 \<in> set supported_modes \<and>
    imx477_get_frame_length mode_3840x2160 (max_fps mode_3840x2160) = Some 2285 \<and>
    height mode_3840x2160 \<le> 2285 \<and> (2285 :: u32) \<le> IMX477_FRAME_LENGTH_MAX)"
  using compute_frame_length_clamped [of "\<lparr>numerator = 1, denominator = 1\<rparr>" mode_1920x1080]
  by (simp add: frame_length_eval clamp_def supported_modes_def)

text \<open>
  With the denominator \<open>2^29 + 1\<close> the 64-bit divisor \<open>(2^29 + 1) * 18856\<close> exceeds
  32 bits; \<open>do_div\<close> divides by its low 32 bits, 18856, and the function returns 32583
  where the quotient of the claim is 0, clamped to the height 3040. With a denominator
  of 0 the division has no result at all.
\<close>

theorem compute_frame_length_counterexample:
  "imx477_get_frame_length mode_4056x3040 \<lparr>numerator = 1, denominator = 0x20000001\<rparr> =
     Some 32583 \<and>
   clamp (unat (height mode_4056x3040)) (unat IMX477_FRAME_LENGTH_MAX)
     ((unat (numerator \<lparr>numerator = 1, denominator = 0x20000001\<rparr>) * unat IMX477_PIXEL_RATE) div
      (unat (denominator \<lparr>numerator = 1, denominator = 0x20000001\<rparr>) *
       unat (line_length_pix mode_4056x3040))) = 3040 \<and>
   imx477_get_frame_length mode_4056x3040 \<lparr>numerator = 1, denominator = 0\<rparr> = None"
  by (simp add: frame_length_eval clamp_def)

section \<open>Long-exposure encoding: properties\<close>

lemma frame_length_loop_iter:
  "\<exists>k. frame_length_loop shift v = (shift + of_nat k, drop_bit k v) \<and>
       drop_bit k v \<le> IMX477_FRAME_LENGTH_MAX \<and>
       (\<forall>j<k. IMX477_FRAME_LENGTH_MAX < drop_bit j v)"
proof (induction shift v rule: frame_length_loop.induct)
  case (1 shift v)
  show ?case
  proof (cases "IMX477_FRAME_LENGTH_MAX < v")
    case False
    then have "frame_length_loop shift v = (shift, v)"
      by (subst frame_length_loop.simps) simp
    with False show ?thesis
      by (intro exI [of _ 0]) (simp add: not_less)
  next
    case True
    from 1 [OF True] obtain k where k:
      "frame_length_loop (shift + 1) (drop_bit 1 v) = (shift + 1 + of_nat k, drop_bit k (drop_bit 1 v))"
      "drop_bit k (drop_bit 1 v) \<le> IMX477_FRAME_LENGTH_MAX"
      "\<forall>j<k. IMX477_FRAME_LENGTH_MAX < drop_bit j (drop_bit 1 v)"
      by blast
    have e: "frame_length_loop shift v = frame_length_loop (shift + 1) (drop_bit 1 v)"
      using True by (subst frame_length_loop.simps) simp
    have m: "\<forall>j<Suc k. IMX477_FRAME_LENGTH_MAX < drop_bit j v"
    proof (intro allI impI)
      fix j assume "j < Suc k"
      then show "IMX477_FRAME_LENGTH_MAX < drop_bit j v"
        using True k(3) by (cases j) (simp_all add: drop_bit_drop_bit)
    qed
    show ?thesis
      using e k(1,2) m
      by (intro exI [of _ "Suc k"]) (simp add: drop_bit_drop_bit ac_simps)
  qed
qed

lemma frame_length_loop_bounded:
  assumes "unat v \<le> 2 ^ 7 * unat IMX477_FRAME_LENGTH_MAX"
  shows "\<exists>k\<le>7. frame_length_loop 0 v = (of_nat k, drop_bit k v) \<and>
           drop_bit k v \<le> IMX477_FRAME_LENGTH_MAX"
proof -
  from frame_length_loop_iter [of 0 v] obtain k where k:
    "frame_length_loop 0 v = (of_nat k, drop_bit k v)"
    "drop_bit k v \<le> IMX477_FRAME_LENGTH_MAX"
    "\<forall>j<k. IMX477_FRAME_LENGTH_MAX < drop_bit j v"
    by auto
  have "k \<le> 7"
  proof (rule ccontr)
    assume "\<not> k \<le> 7"
    then have "IMX477_FRAME_LENGTH_MAX < drop_bit 7 v" using k(3) by simp
    then have "unat IMX477_FRAME_LENGTH_MAX < unat v div 2 ^ 7"
      by (simp add: word_less_nat_alt drop_bit_eq_div unat_div)
    with assms show False by (simp add: IMX477_FRAME_LENGTH_MAX_def)
  qed
  with k show ?thesis by blast
qed

lemma unat_of_nat_le_7: "k \<le> 7 \<Longrightarrow> unat (of_nat k :: u32) = k"
  by (simp add: unat_of_nat)

lemma imx477_set_frame_length_result:
  assumes "frame_length_loop 0 v = (shift, v')"
  shows "imx477_set_frame_length s v =
     (if i2c_fail s (length (i2c_log s)) then (- EIO,
          s\<lparr>long_exp_shift := shift,
            i2c_log := i2c_log s @ [I2C_send (write_reg_buf IMX477_REG_FRAME_LENGTH 2 v')]\<rparr>)
      else (if i2c_fail s (Suc (length (i2c_log s))) then - EIO else 0,
          s\<lparr>long_exp_shift := shift,
            i2c_log := i2c_log s @ [I2C_send (write_reg_buf IMX477_REG_FRAME_LENGTH 2 v'),
                         I2C_send (write_reg_buf IMX477_LONG_EXP_SHIFT_REG 1 shift)]\<rparr>))"
  using assms
  by (simp add: imx477_set_frame_length_def imx477_write_reg_sends IMX477_REG_VALUE_16BIT_def
      IMX477_REG_VALUE_08BIT_def EIO_def)

lemma imx477_set_ctrl_exposure:
  "imx477_set_ctrl t V4L2_CID_EXPOSURE =
     (if i2c_fail t (length (i2c_log t)) then - EIO else 0,
      pm_runtime_put (t\<lparr>i2c_log := i2c_log t @
        [I2C_send (write_reg_buf IMX477_REG_EXPOSURE 2
           (signed_drop_bit (unat (long_exp_shift t)) (val (exposure t))))]\<rparr>))"
  by (simp add: imx477_set_ctrl_def imx477_write_reg_sends IMX477_REG_VALUE_16BIT_def
      exposure_def)

lemma signed_drop_bit_nonneg:
  fixes e :: s32
  assumes "0 \<le> sint e"
  shows "signed_drop_bit n e = drop_bit n e"
proof -
  have nb: "\<not> bit e 31" using assms bit_last_iff [of e] by simp
  show ?thesis
  proof (rule bit_word_eqI)
    fix k assume "k < LENGTH(32)"
    then show "bit (signed_drop_bit n e) k = bit (drop_bit n e) k"
      using nb by (auto simp: bit_signed_drop_bit_iff bit_drop_bit_eq dest: bit_imp_le_length)
  qed
qed

lemma unat_drop_bit_u32: "unat (drop_bit k (e :: u32)) = unat e div 2 ^ k"
proof -
  have "take_bit 32 (unat e) = unat e"
    using unsigned_less [of e, where 'a = nat] by (intro take_bit_nat_eq_self) simp
  then have "unat (drop_bit k e) = drop_bit k (unat e)"
    by (simp add: unsigned_drop_bit_eq)
  then show ?thesis by (simp add: drop_bit_eq_div)
qed

lemma exposure_wire_value:
  fixes e v :: u32
  assumes "0 \<le> sint e" and "unat e \<le> unat v" and "drop_bit k v \<le> IMX477_FRAME_LENGTH_MAX"
  shows "unat (ucast (signed_drop_bit k e) :: u16) = unat e div 2 ^ k"
proof -
  have "unat (drop_bit k e) = unat e div 2 ^ k"
    by (rule unat_drop_bit_u32)
  moreover have "unat e div 2 ^ k \<le> unat v div 2 ^ k"
    using assms(2) by (rule div_le_mono)
  moreover have "unat v div 2 ^ k \<le> 65500"
    using assms(3)
    by (simp add: word_le_nat_alt unat_drop_bit_u32 IMX477_FRAME_LENGTH_MAX_def)
  ultimately have "unat (drop_bit k e) < 2 ^ 16" by simp
  then have "unat (ucast (drop_bit k e) :: u16) = unat (drop_bit k e)"
    by (simp add: unsigned_ucast_eq take_bit_nat_eq_self)
  then show ?thesis
    using assms(1) by (simp add: signed_drop_bit_nonneg unat_drop_bit_u32)
qed

text \<open>
  C1. For every requested number of total lines \<open>v\<close> of at most
  \<open>2^7 * IMX477_FRAME_LENGTH_MAX\<close> (the VBLANK control within its published bounds),
  \<open>imx477_set_frame_length\<close> stores in the device state a shift \<open>sh\<close> with
  \<open>0 \<le> sh \<le> 7\<close> and \<open>v >> sh \<le> IMX477_FRAME_LENGTH_MAX\<close>, and writes \<open>v >> sh\<close>
  to the frame-length register. In every later state with that shift, applying the exposure
  control sends \<open>e >> sh\<close> (the \<open>int\<close> \<open>e\<close> shifted right, in 16 bits) to the
  exposure register and leaves the in-memory exposure value \<open>e\<close> as it is; for an
  exposure \<open>0 \<le> e \<le> v\<close> the 16-bit wire value is exactly \<open>e div 2^sh\<close>.
\<close>

theorem long_exposure_shift_symmetry:
  assumes "unat v \<le> 2 ^ 7 * unat IMX477_FRAME_LENGTH_MAX"
  shows "let s' = snd (imx477_set_frame_length s v); sh = unat (long_exp_shift s')
         in sh \<le> 7 \<and> drop_bit sh v \<le> IMX477_FRAME_LENGTH_MAX \<and>
            (\<exists>rest. i2c_log s' = i2c_log s @
               I2C_send (put_unaligned_be16 IMX477_REG_FRAME_LENGTH @
                         put_unaligned_be16 (ucast (drop_bit sh v))) # rest) \<and>
            (\<forall>t. long_exp_shift t = long_exp_shift s' \<longrightarrow>
               (let t' = snd (imx477_set_ctrl t V4L2_CID_EXPOSURE); e = val (exposure t)
                in i2c_log t' = i2c_log t @
                     [I2C_send (put_unaligned_be16 IMX477_REG_EXPOSURE @
                                put_unaligned_be16 (ucast (signed_drop_bit sh e)))] \<and>
                   val (exposure t') = e \<and>
                   (0 \<le> sint e \<and> unat e \<le> unat v \<longrightarrow>
                      unat (ucast (signed_drop_bit sh e) :: u16) = unat e div 2 ^ sh)))"
proof -
  from frame_length_loop_bounded [OF assms] obtain k where k: "k \<le> 7"
    "frame_length_loop 0 v = (of_nat k, drop_bit k v)"
    "drop_bit k v \<le> IMX477_FRAME_LENGTH_MAX"
    by blast
  let ?s' = "snd (imx477_set_frame_length s v)"
  have sh: "long_exp_shift ?s' = of_nat k"
    by (simp add: imx477_set_frame_length_result [OF k(2)])
  have u: "unat (long_exp_shift ?s') = k"
    unfolding sh using k(1) by (rule unat_of_nat_le_7)
  have lg: "\<exists>rest. i2c_log ?s' = i2c_log s @
      I2C_send (put_unaligned_be16 IMX477_REG_FRAME_LENGTH @
                put_unaligned_be16 (ucast (drop_bit k v))) # rest"
    by (simp add: imx477_set_frame_length_result [OF k(2)] write_reg_buf_2)
  have ex: "i2c_log (snd (imx477_set_ctrl t V4L2_CID_EXPOSURE)) = i2c_log t @
        [I2C_send (put_unaligned_be16 IMX477_REG_EXPOSURE @
                   put_unaligned_be16 (ucast (signed_drop_bit k (val (exposure t)))))] \<and>
      val (exposure (snd (imx477_set_ctrl t V4L2_CID_EXPOSURE))) = val (exposure t)"
    if "long_exp_shift t = long_exp_shift ?s'" for t
    using that u
    by (simp add: imx477_set_ctrl_exposure write_reg_buf_2 pm_runtime_put_def exposure_def)
  show ?thesis
    unfolding Let_def u
    using k(1,3) lg ex exposure_wire_value [OF _ _ k(3)] by simp
qed

lemmas transport_eval = imx477_write_reg_def i2c_master_send_def write_reg_buf_def
  put_unaligned_be16_def put_unaligned_be32_def Let_def

theorem long_exposure_shift_symmetry_witness:
  "unat (200000 :: u32) \<le> 2 ^ 7 * unat IMX477_FRAME_LENGTH_MAX \<and>
   long_exp_shift (snd (imx477_set_frame_length probed_dev 200000)) = 2 \<and>
   drop_bit 2 (200000 :: u32) \<le> IMX477_FRAME_LENGTH_MAX \<and>
   i2c_log (snd (imx477_set_frame_length probed_dev 200000)) =
     [I2C_send [0x03, 0x40, 0xC3, 0x50], I2C_send [0x31, 0x00, 0x02]] \<and>
   val (exposure (snd (imx477_set_frame_length probed_dev 200000))) = 0x640 \<and>
   i2c_log (snd (imx477_set_ctrl (snd (imx477_set_frame_length probed_dev 200000))
                   V4L2_CID_EXPOSURE)) =
     [I2C_send [0x03, 0x40, 0xC3, 0x50], I2C_send [0x31, 0x00, 0x02],
      I2C_send [0x02, 0x02, 0x01, 0x90]] \<and>
   val (exposure (snd (imx477_set_ctrl (snd (imx477_set_frame_length probed_dev 200000))
                   V4L2_CID_EXPOSURE))) = 0x640"
  using long_exposure_shift_symmetry [of 200000 probed_dev]
  by (simp add: imx477_set_frame_length_def frame_length_loop.simps imx477_set_ctrl_def
      transport_eval probed_dev_def probed_ctrls_def mk_ctrl_def exposure_def pm_runtime_put_def
      IMX477_FRAME_LENGTH_MAX_def IMX477_REG_FRAME_LENGTH_def IMX477_LONG_EXP_SHIFT_REG_def
      IMX477_REG_EXPOSURE_def IMX477_REG_VALUE_16BIT_def IMX477_REG_VALUE_08BIT_def)

section \<open>VBLANK and the exposure range: properties\<close>

lemma signed_take_bit_31_self:
  "- 2147483648 \<le> k \<Longrightarrow> k < 2147483648 \<Longrightarrow> signed_take_bit 31 k = (k :: int)"
  by (intro signed_take_bit_int_eq_self) simp_all

lemma exposure_max_int:
  fixes h vb :: u32
  assumes "0 \<le> sint vb" and "uint h + sint vb \<le> 2 ^ 7 * uint IMX477_FRAME_LENGTH_MAX"
  shows "sint (h + vb - IMX477_EXPOSURE_OFFSET) = uint h + sint vb - 22"
proof -
  have b: "uint h + sint vb \<le> 8384000"
    using assms(2) by (simp add: IMX477_FRAME_LENGTH_MAX_def)
  have h0: "0 \<le> uint h" by simp
  have "uint h < 2147483648" using b assms(1) by linarith
  then have "uint h < 2 ^ 31" by simp
  then have sh: "sint h = uint h" by (rule sint_eq_uint_small)
  have "sint (h + vb) = signed_take_bit 31 (sint h + sint vb)"
    by (simp add: sint_word_ariths)
  also have "\<dots> = uint h + sint vb"
    unfolding sh using b assms(1) h0 by (intro signed_take_bit_31_self) linarith+
  finally have s1: "sint (h + vb) = uint h + sint vb" .
  have "sint (h + vb - IMX477_EXPOSURE_OFFSET) = signed_take_bit 31 (sint (h + vb) - 22)"
    by (simp add: sint_word_ariths IMX477_EXPOSURE_OFFSET_def)
  also have "\<dots> = uint h + sint vb - 22"
    unfolding s1 using b assms(1) h0 by (intro signed_take_bit_31_self) linarith+
  finally show ?thesis .
qed

lemma imx477_adjust_exposure_range_exposure:
  "exposure (imx477_adjust_exposure_range s) =
     (let mx = height (cur_mode s) + val (vblank s) - IMX477_EXPOSURE_OFFSET;
          e = val (exposure s)
      in (exposure s)\<lparr>minimum := minimum (exposure s), maximum := sint mx,
            step := step (exposure s),
            default_value := (if sint mx < sint e then sint mx else sint e),
            val := (if sint mx < sint e then mx
                    else if sint e < minimum (exposure s) then word_of_int (minimum (exposure s))
                    else e)\<rparr>)"
  by (simp add: imx477_adjust_exposure_range_def v4l2_ctrl_modify_range_def exposure_def Let_def)

lemma imx477_adjust_exposure_range_frame:
  "i2c_log (imx477_adjust_exposure_range s) = i2c_log s"
  "i2c_fail (imx477_adjust_exposure_range s) = i2c_fail s"
  "cur_mode (imx477_adjust_exposure_range s) = cur_mode s"
  "vblank (imx477_adjust_exposure_range s) = vblank s"
  by (simp_all add: imx477_adjust_exposure_range_def Let_def vblank_def)

lemma imx477_set_frame_length_frame:
  "ctrl_handler (snd (imx477_set_frame_length s v)) = ctrl_handler s"
proof -
  obtain shift v' where "frame_length_loop 0 v = (shift, v')" by (cases "frame_length_loop 0 v")
  then show ?thesis by (simp add: imx477_set_frame_length_result)
qed

lemma imx477_set_frame_length_cong:
  assumes "i2c_log s1 = i2c_log s2" "i2c_fail s1 = i2c_fail s2"
  shows "fst (imx477_set_frame_length s1 v) = fst (imx477_set_frame_length s2 v)"
    "i2c_log (snd (imx477_set_frame_length s1 v)) = i2c_log (snd (imx477_set_frame_length s2 v))"
    "long_exp_shift (snd (imx477_set_frame_length s1 v)) =
       long_exp_shift (snd (imx477_set_frame_length s2 v))"
proof -
  obtain shift v' where "frame_length_loop 0 v = (shift, v')" by (cases "frame_length_loop 0 v")
  then show "fst (imx477_set_frame_length s1 v) = fst (imx477_set_frame_length s2 v)"
    "i2c_log (snd (imx477_set_frame_length s1 v)) = i2c_log (snd (imx477_set_frame_length s2 v))"
    "long_exp_shift (snd (imx477_set_frame_length s1 v)) =
       long_exp_shift (snd (imx477_set_frame_length s2 v))"
    using assms by (simp_all add: imx477_set_frame_length_result)
qed

lemma imx477_set_ctrl_vblank:
  "imx477_set_ctrl s V4L2_CID_VBLANK =
     (fst (imx477_set_frame_length (imx477_adjust_exposure_range s)
             (height (cur_mode s) + val (vblank s))),
      pm_runtime_put (snd (imx477_set_frame_length (imx477_adjust_exposure_range s)
             (height (cur_mode s) + val (vblank s)))))"
  by (simp add: imx477_set_ctrl_def Let_def split_beta imx477_adjust_exposure_range_frame
      vblank_def [symmetric])

lemma frame_length_no_wrap:
  fixes h vb :: u32
  assumes "0 \<le> sint vb" and "uint h + sint vb \<le> 2 ^ 7 * uint IMX477_FRAME_LENGTH_MAX"
  shows "uint (h + vb) = uint h + sint vb"
proof -
  have b: "uint h + sint vb \<le> 8384000"
    using assms(2) by (simp add: IMX477_FRAME_LENGTH_MAX_def)
  have "sint vb < 2147483648" using sint_lt [of vb] by simp
  then have "sint vb < 2 ^ 32" by simp
  with assms(1) have "take_bit 32 (sint vb) = sint vb"
    by (intro take_bit_int_eq_self)
  then have v: "sint vb = uint vb" by (simp add: uint_sint)
  have "uint (h + vb) = (uint h + uint vb) mod 2 ^ 32"
    by (simp add: uint_word_ariths)
  also have "\<dots> = uint h + uint vb"
    using b assms(1) uint_ge_0 [of h] unfolding v by (intro mod_pos_pos_trivial) simp_all
  finally show ?thesis using v by simp
qed

text \<open>
  C4. Applying the VBLANK control with value \<open>vb\<close> (within its published bounds:
  not negative, and \<open>height + vb\<close> at most \<open>2^7 * IMX477_FRAME_LENGTH_MAX\<close>) sets the
  exposure control's maximum to exactly \<open>height + vb - 22\<close> and its default to the
  minimum of that and the current exposure value; an exposure value above the new maximum
  is clamped down to it, one within the new range is kept. The VBLANK write itself is the
  frame-length write of \<open>height + vb\<close>: same return value, same bus traffic and same
  stored shift as \<open>imx477_set_frame_length\<close> with that argument.
\<close>

theorem vblank_adjusts_exposure_range:
  assumes "0 \<le> sint (val (vblank s))"
    and "uint (height (cur_mode s)) + sint (val (vblank s))
           \<le> 2 ^ 7 * uint IMX477_FRAME_LENGTH_MAX"
  shows "let vb = val (vblank s); h = height (cur_mode s); e = sint (val (exposure s));
             mx = uint h + sint vb - 22;
             r = imx477_set_ctrl s V4L2_CID_VBLANK; s' = snd r;
             fl = imx477_set_frame_length s (h + vb)
         in maximum (exposure s') = mx \<and>
            default_value (exposure s') = min mx e \<and>
            (mx < e \<longrightarrow> sint (val (exposure s')) = mx) \<and>
            (minimum (exposure s) \<le> e \<and> e \<le> mx \<longrightarrow> val (exposure s') = val (exposure s)) \<and>
            uint (h + vb) = uint h + sint vb \<and>
            fst r = fst fl \<and> i2c_log s' = i2c_log (snd fl) \<and>
            long_exp_shift s' = long_exp_shift (snd fl)"
proof -
  let ?a = "imx477_adjust_exposure_range s"
  let ?v = "height (cur_mode s) + val (vblank s)"
  let ?s' = "snd (imx477_set_ctrl s V4L2_CID_VBLANK)"
  have mx: "sint (?v - IMX477_EXPOSURE_OFFSET) =
      uint (height (cur_mode s)) + sint (val (vblank s)) - 22"
    using assms by (rule exposure_max_int)
  have ex: "exposure ?s' = exposure ?a"
    by (simp add: imx477_set_ctrl_vblank pm_runtime_put_def exposure_def
        imx477_set_frame_length_frame)
  have fl: "fst (imx477_set_ctrl s V4L2_CID_VBLANK) = fst (imx477_set_frame_length s ?v)"
    "i2c_log ?s' = i2c_log (snd (imx477_set_frame_length s ?v))"
    "long_exp_shift ?s' = long_exp_shift (snd (imx477_set_frame_length s ?v))"
    using imx477_set_frame_length_cong [of ?a s ?v]
    by (simp_all add: imx477_set_ctrl_vblank pm_runtime_put_def imx477_adjust_exposure_range_frame)
  have nw: "uint ?v = uint (height (cur_mode s)) + sint (val (vblank s))"
    using assms by (rule frame_length_no_wrap)
  show ?thesis
    unfolding Let_def ex imx477_adjust_exposure_range_exposure
    using mx fl nw by (simp add: min_def)
qed

theorem vblank_adjusts_exposure_range_witness:
  "0 \<le> sint (val (vblank dev_1080p)) \<and>
   uint (height (cur_mode dev_1080p)) + sint (val (vblank dev_1080p))
     \<le> 2 ^ 7 * uint IMX477_FRAME_LENGTH_MAX \<and>
   maximum (exposure (snd (imx477_set_ctrl dev_1080p V4L2_CID_VBLANK))) = 1211 \<and>
   default_value (exposure (snd (imx477_set_ctrl dev_1080p V4L2_CID_VBLANK))) = 1211 \<and>
   (1211 :: int) < sint (val (exposure dev_1080p)) \<and>
   sint (val (exposure (snd (imx477_set_ctrl dev_1080p V4L2_CID_VBLANK)))) = 1211 \<and>
   fst (imx477_set_ctrl dev_1080p V4L2_CID_VBLANK) = 0 \<and>
   i2c_log (snd (imx477_set_ctrl dev_1080p V4L2_CID_VBLANK)) =
     [I2C_send [0x03, 0x40, 0x04, 0xD1], I2C_send [0x31, 0x00, 0x00]]"
  using vblank_adjusts_exposure_range [of dev_1080p]
  by (simp add: dev_1080p_def probed_dev_def probed_ctrls_def mk_ctrl_def vblank_def exposure_def
      mode_1920x1080_def IMX477_FRAME_LENGTH_MAX_def imx477_set_frame_length_def
      frame_length_loop.simps transport_eval
      IMX477_REG_FRAME_LENGTH_def IMX477_LONG_EXP_SHIFT_REG_def
      IMX477_REG_VALUE_16BIT_def IMX477_REG_VALUE_08BIT_def)

section \<open>Bus runs of the control and streaming sequences\<close>

lemma same_device_refl: "same_device s s"
  by (simp add: same_device_def)

lemma same_device_trans: "same_device s s1 \<Longrightarrow> same_device s1 s2 \<Longrightarrow> same_device s s2"
  by (simp add: same_device_def)

lemma bus_run_refl: "bus_run s s 0"
  by (simp add: bus_run_def same_device_refl)

lemma bus_run_trans:
  assumes "bus_run s s1 0" and "bus_run s1 s2 r"
  shows "bus_run s s2 r"
proof -
  from assms(1) obtain xs where xs: "same_device s s1" "i2c_log s1 = i2c_log s @ xs"
    "\<forall>k<length xs. \<not> i2c_fail s (length (i2c_log s) + k)"
    by (auto simp: bus_run_def)
  from assms(2) obtain ys where ys: "same_device s1 s2" "i2c_log s2 = i2c_log s1 @ ys"
    "\<forall>k<length ys. i2c_fail s1 (length (i2c_log s1) + k) \<longleftrightarrow> (r \<noteq> 0 \<and> Suc k = length ys)"
    "r \<noteq> 0 \<longrightarrow> r = - EIO \<and> ys \<noteq> []"
    by (auto simp: bus_run_def)
  have f: "i2c_fail s1 = i2c_fail s" using xs(1) by (simp add: same_device_def)
  have "\<forall>k<length (xs @ ys). i2c_fail s (length (i2c_log s) + k) \<longleftrightarrow>
      (r \<noteq> 0 \<and> Suc k = length (xs @ ys))"
  proof (intro allI impI)
    fix k assume k: "k < length (xs @ ys)"
    show "i2c_fail s (length (i2c_log s) + k) \<longleftrightarrow> (r \<noteq> 0 \<and> Suc k = length (xs @ ys))"
    proof (cases "k < length xs")
      case True
      then have "\<not> i2c_fail s (length (i2c_log s) + k)" using xs(3) by simp
      moreover have "\<not> (r \<noteq> 0 \<and> Suc k = length (xs @ ys))"
        using True ys(4) by (cases ys) auto
      ultimately show ?thesis by simp
    next
      case False
      then obtain j where j: "k = length xs + j" "j < length ys"
        using k by (auto simp: not_less dest!: le_Suc_ex)
      from ys(3) j(2) have "i2c_fail s (length (i2c_log s) + length xs + j) \<longleftrightarrow>
          (r \<noteq> 0 \<and> Suc j = length ys)"
        unfolding f xs(2) by simp
      then show ?thesis using j(1) by (simp add: add.assoc)
    qed
  qed
  moreover have "i2c_log s2 = i2c_log s @ (xs @ ys)" using xs(2) ys(2) by simp
  moreover have "same_device s s2" using xs(1) ys(1) by (rule same_device_trans)
  moreover have "r \<noteq> 0 \<longrightarrow> r = - EIO \<and> xs @ ys \<noteq> []" using ys(4) by simp
  ultimately show ?thesis unfolding bus_run_def by blast
qed

lemma bus_run_write_reg:
  assumes "len \<le> 4"
  shows "bus_run s (snd (imx477_write_reg s reg len v)) (fst (imx477_write_reg s reg len v))"
  unfolding bus_run_def imx477_write_reg_sends [OF assms]
  by (auto simp: same_device_def EIO_def)

lemma bus_run_write_regs:
  "bus_run s (snd (imx477_write_regs s regs)) (fst (imx477_write_regs s regs))"
proof (induction regs arbitrary: s)
  case Nil
  show ?case by (simp add: bus_run_refl)
next
  case (Cons r regs)
  let ?w = "imx477_write_reg s (address r) 1 (ucast (reg_val r))"
  have w: "bus_run s (snd ?w) (fst ?w)" by (rule bus_run_write_reg) simp
  show ?case
  proof (cases "fst ?w = 0")
    case True
    then have "imx477_write_regs s (r # regs) = imx477_write_regs (snd ?w) regs"
      by (simp add: split_beta)
    moreover have "bus_run s (snd ?w) 0" using w True by simp
    ultimately show ?thesis using Cons.IH [of "snd ?w"] by (auto intro: bus_run_trans)
  next
    case False
    then have "imx477_write_regs s (r # regs) = ?w" by (simp add: split_beta)
    with w show ?thesis by simp
  qed
qed

lemma bus_run_pre:
  assumes "same_device s s1" and "i2c_log s1 = i2c_log s" and "bus_run s1 s' r"
  shows "bus_run s s' r"
proof -
  have "bus_run s s1 0"
    using assms(1,2) by (simp add: bus_run_def)
  then show ?thesis using assms(3) by (rule bus_run_trans)
qed

lemma bus_run_post:
  assumes "bus_run s s1 r" and "same_device s1 s'" and "i2c_log s' = i2c_log s1"
  shows "bus_run s s' r"
  using assms unfolding bus_run_def by (auto intro: same_device_trans)

lemma same_device_adjust: "same_device s (imx477_adjust_exposure_range s)"
  by (simp add: same_device_def imx477_adjust_exposure_range_def v4l2_ctrl_modify_range_def
      Let_def exposure_def)

lemma same_device_pm_runtime_put: "same_device s (pm_runtime_put s)"
  by (simp add: same_device_def pm_runtime_put_def)

lemma bus_run_set_frame_length:
  "bus_run s (snd (imx477_set_frame_length s v)) (fst (imx477_set_frame_length s v))"
proof -
  obtain shift v' where l: "frame_length_loop 0 v = (shift, v')"
    by (cases "frame_length_loop 0 v")
  let ?s1 = "s\<lparr>long_exp_shift := shift\<rparr>"
  let ?w1 = "imx477_write_reg ?s1 IMX477_REG_FRAME_LENGTH IMX477_REG_VALUE_16BIT v'"
  let ?w2 = "imx477_write_reg (snd ?w1) IMX477_LONG_EXP_SHIFT_REG IMX477_REG_VALUE_08BIT
               (long_exp_shift (snd ?w1))"
  have e: "imx477_set_frame_length s v = (if fst ?w1 \<noteq> 0 then ?w1 else ?w2)"
    using l by (simp add: imx477_set_frame_length_def split_beta Let_def)
  have b1: "bus_run ?s1 (snd ?w1) (fst ?w1)"
    by (rule bus_run_write_reg) (simp add: IMX477_REG_VALUE_16BIT_def)
  have b2: "bus_run (snd ?w1) (snd ?w2) (fst ?w2)"
    by (rule bus_run_write_reg) (simp add: IMX477_REG_VALUE_08BIT_def)
  have pre: "same_device s ?s1" "i2c_log ?s1 = i2c_log s"
    by (simp_all add: same_device_def)
  show ?thesis
  proof (cases "fst ?w1 = 0")
    case True
    with b1 have "bus_run ?s1 (snd ?w1) 0" by simp
    from bus_run_trans [OF this b2] have "bus_run ?s1 (snd ?w2) (fst ?w2)" .
    from bus_run_pre [OF pre this] show ?thesis using True e by simp
  next
    case False
    from bus_run_pre [OF pre b1] show ?thesis using False e by simp
  qed
qed

lemma bus_run_put_write_reg:
  assumes "same_device s s0" and "i2c_log s0 = i2c_log s" and "len \<le> 4"
  shows "bus_run s (pm_runtime_put (snd (imx477_write_reg s0 reg len v)))
           (fst (imx477_write_reg s0 reg len v))"
  by (intro bus_run_post [OF bus_run_pre [OF assms(1,2) bus_run_write_reg [OF assms(3)]]]
      same_device_pm_runtime_put) (simp add: pm_runtime_put_def)

lemma bus_run_put_set_frame_length:
  assumes "same_device s s0" and "i2c_log s0 = i2c_log s"
  shows "bus_run s (pm_runtime_put (snd (imx477_set_frame_length s0 v)))
           (fst (imx477_set_frame_length s0 v))"
  by (intro bus_run_post [OF bus_run_pre [OF assms bus_run_set_frame_length]]
      same_device_pm_runtime_put) (simp add: pm_runtime_put_def)

lemma bus_run_set_ctrl:
  assumes "cid \<in> set replayed_ctrls"
  shows "bus_run s (snd (imx477_set_ctrl s cid)) (fst (imx477_set_ctrl s cid))"
  using assms unfolding replayed_ctrls_def
  by (auto simp: imx477_set_ctrl_def split_beta Let_def
      bus_run_put_write_reg bus_run_put_set_frame_length same_device_adjust same_device_refl
      imx477_adjust_exposure_range_frame IMX477_REG_VALUE_16BIT_def IMX477_REG_VALUE_08BIT_def)

lemma bus_run_ctrl_replay:
  "set cs \<subseteq> set replayed_ctrls \<Longrightarrow>
     bus_run s (snd (ctrl_replay s cs)) (fst (ctrl_replay s cs))"
proof (induction cs arbitrary: s)
  case Nil
  show ?case by (simp add: bus_run_refl)
next
  case (Cons c cs)
  let ?w = "imx477_set_ctrl s c"
  have w: "bus_run s (snd ?w) (fst ?w)" using Cons.prems by (intro bus_run_set_ctrl) simp
  show ?case
  proof (cases "fst ?w = 0")
    case True
    then have "ctrl_replay s (c # cs) = ctrl_replay (snd ?w) cs"
      by (simp add: split_beta)
    moreover have "bus_run s (snd ?w) 0" using w True by simp
    moreover have "bus_run (snd ?w) (snd (ctrl_replay (snd ?w) cs)) (fst (ctrl_replay (snd ?w) cs))"
      using Cons.prems by (intro Cons.IH) simp
    ultimately show ?thesis by (auto intro: bus_run_trans)
  next
    case False
    then have "ctrl_replay s (c # cs) = ?w" by (simp add: split_beta)
    with w show ?thesis by simp
  qed
qed

lemma bus_run_handler_setup:
  "bus_run s (snd (v4l2_ctrl_handler_setup s)) (fst (v4l2_ctrl_handler_setup s))"
  unfolding v4l2_ctrl_handler_setup_def by (rule bus_run_ctrl_replay) simp

lemma bus_run_seq:
  assumes "bus_run s (snd a) (fst a)"
    and "fst a = 0 \<Longrightarrow> bus_run (snd a) (snd b) (fst b)"
  shows "bus_run s (snd (if fst a \<noteq> 0 then a else b)) (fst (if fst a \<noteq> 0 then a else b))"
proof (cases "fst a = 0")
  case True
  with assms(1) have "bus_run s (snd a) 0" by simp
  from bus_run_trans [OF this assms(2) [OF True]] True show ?thesis by simp
next
  case False
  with assms(1) show ?thesis by simp
qed

lemma bus_run_write_common_regs:
  "bus_run s (snd (write_common_regs s)) (fst (write_common_regs s))"
proof (cases "common_regs_written s")
  case True
  then show ?thesis by (simp add: write_common_regs_def bus_run_refl)
next
  case False
  let ?a = "imx477_write_regs s mode_common_regs"
  let ?b = "imx477_write_regs (snd ?a) (extra_regs (snd ?a))"
  let ?r = "if fst ?a \<noteq> 0 then ?a else ?b"
  have r: "bus_run s (snd ?r) (fst ?r)"
    by (intro bus_run_seq bus_run_write_regs)
  have e: "write_common_regs s =
      (if fst ?r \<noteq> 0 then ?r else (0, (snd ?r)\<lparr>common_regs_written := True\<rparr>))"
    using False by (simp add: write_common_regs_def split_beta)
  show ?thesis
  proof (cases "fst ?r = 0")
    case True
    have "bus_run s ((snd ?r)\<lparr>common_regs_written := True\<rparr>) (fst ?r)"
      by (rule bus_run_post [OF r]) (simp_all add: same_device_def)
    with True e show ?thesis by simp
  next
    case False
    with r e show ?thesis by simp
  qed
qed

lemma imx477_start_streaming_seq:
  "imx477_start_streaming s =
     (let a = write_common_regs s;
          b = imx477_write_regs (snd a) (reg_list (cur_mode (snd a)));
          c = v4l2_ctrl_handler_setup (snd b);
          d = imx477_write_reg (snd c) IMX477_REG_MODE_SELECT IMX477_REG_VALUE_08BIT
                IMX477_MODE_STREAMING
      in if fst a \<noteq> 0 then a else if fst b \<noteq> 0 then b else if fst c \<noteq> 0 then c else d)"
  by (simp add: imx477_start_streaming_def split_beta Let_def)

lemma bus_run_start_streaming:
  "bus_run s (snd (imx477_start_streaming s)) (fst (imx477_start_streaming s))"
  unfolding imx477_start_streaming_seq Let_def
  by (intro bus_run_seq bus_run_write_common_regs bus_run_write_regs bus_run_handler_setup
      bus_run_write_reg) (simp add: IMX477_REG_VALUE_08BIT_def)

lemma bus_run_stop_streaming:
  "bus_run s (imx477_stop_streaming s)
     (fst (imx477_write_reg s IMX477_REG_MODE_SELECT IMX477_REG_VALUE_08BIT
             IMX477_MODE_STANDBY))"
  unfolding imx477_stop_streaming_def
  by (rule bus_run_write_reg) (simp add: IMX477_REG_VALUE_08BIT_def)

lemma pm_runtime_get_sync_active:
  "\<not> rpm_suspended s \<Longrightarrow> pm_runtime_get_sync s = (1, s\<lparr>rpm_usage := rpm_usage s + 1\<rparr>)"
  by (simp add: pm_runtime_get_sync_def Let_def)

lemma imx477_stop_streaming_eq:
  "imx477_stop_streaming s =
     s\<lparr>i2c_log := i2c_log s @
        [I2C_send (write_reg_buf IMX477_REG_MODE_SELECT 1 IMX477_MODE_STANDBY)]\<rparr>"
  by (simp add: imx477_stop_streaming_def imx477_write_reg_sends IMX477_REG_VALUE_08BIT_def)

lemma pm_runtime_get_sync_frame:
  "mutex_locked (snd (pm_runtime_get_sync s)) = mutex_locked s"
  "power_on (snd (pm_runtime_get_sync s)) = power_on s"
  "ctrl_handler (snd (pm_runtime_get_sync s)) = ctrl_handler s"
  "i2c_fail (snd (pm_runtime_get_sync s)) = i2c_fail s"
  "common_regs_written (snd (pm_runtime_get_sync s)) = common_regs_written s"
  "cur_mode (snd (pm_runtime_get_sync s)) = cur_mode s"
  "extra_regs (snd (pm_runtime_get_sync s)) = extra_regs s"
  "streaming (snd (pm_runtime_get_sync s)) \<longrightarrow> streaming s"
  "0 \<le> fst (pm_runtime_get_sync s) \<longrightarrow>
     i2c_log (snd (pm_runtime_get_sync s)) = i2c_log s \<and>
     streaming (snd (pm_runtime_get_sync s)) = streaming s"
  by (simp_all add: pm_runtime_get_sync_def imx477_resume_def imx477_power_on_def
      imx477_stop_streaming_eq Let_def)

lemma start_streaming_unfold:
  assumes "\<not> streaming s"
  shows "start_streaming s =
     (let g = pm_runtime_get_sync (mutex_lock s); b = imx477_start_streaming (snd g)
      in if fst g < 0 then (fst g, mutex_unlock (pm_runtime_put_noidle (snd g)))
         else if fst b \<noteq> 0 then (fst b, mutex_unlock (pm_runtime_put (snd b)))
         else (0, mutex_unlock
                (v4l2_ctrl_grab (v4l2_ctrl_grab ((snd b)\<lparr>streaming := True\<rparr>)
                   V4L2_CID_VFLIP True) V4L2_CID_HFLIP True)))"
  using assms
  by (simp add: start_streaming_def imx477_s_stream_def mutex_lock_def split_beta Let_def)

lemma s_stream_noop:
  "(if streaming s then 1 else 0) = enable \<Longrightarrow>
     imx477_s_stream s enable = (0, s\<lparr>mutex_locked := False\<rparr>)"
  by (simp add: imx477_s_stream_def mutex_lock_def mutex_unlock_def Let_def)

lemma start_streaming_success_state:
  assumes "\<not> streaming s" and "fst (start_streaming s) = 0"
  shows "streaming (snd (start_streaming s))" "\<not> mutex_locked (snd (start_streaming s))"
    "grabbed (hflip (snd (start_streaming s)))" "grabbed (vflip (snd (start_streaming s)))"
  using assms(2) unfolding start_streaming_unfold [OF assms(1)]
  by (simp_all add: Let_def mutex_unlock_def v4l2_ctrl_grab_def hflip_def vflip_def
      split: if_splits)

lemma bus_run_no_fail:
  assumes "bus_run s s' r" and "\<forall>k. \<not> i2c_fail s k"
  shows "r = 0"
proof (rule ccontr)
  assume r: "r \<noteq> 0"
  from assms(1) r have "\<exists>xs. xs \<noteq> [] \<and>
      (\<forall>k<length xs. i2c_fail s (length (i2c_log s) + k) \<longleftrightarrow> Suc k = length xs)"
    unfolding bus_run_def by auto
  then obtain xs where xs: "xs \<noteq> []"
    "\<forall>k<length xs. i2c_fail s (length (i2c_log s) + k) \<longleftrightarrow> Suc k = length xs"
    by blast
  from xs(1) have "length xs - 1 < length xs" "Suc (length xs - 1) = length xs"
    by (cases xs; simp)+
  with xs(2) have "i2c_fail s (length (i2c_log s) + (length xs - 1))"
    by blast
  with assms(2) show False by simp
qed

lemma imx477_start_streaming_ok:
  "\<forall>k. \<not> i2c_fail s k \<Longrightarrow> fst (imx477_start_streaming s) = 0"
  using bus_run_start_streaming by (rule bus_run_no_fail)

lemma imx477_write_regs_success:
  assumes "fst (imx477_write_regs s regs) = 0"
  shows "snd (imx477_write_regs s regs) = s\<lparr>i2c_log := i2c_log s @ map reg_msg regs\<rparr>"
proof -
  obtain r s' where w: "imx477_write_regs s regs = (r, s')" by (cases "imx477_write_regs s regs")
  with assms have "r = 0" by simp
  with imx477_write_regs_log [OF w] show ?thesis using w by auto
qed

lemma write_common_regs_success:
  assumes "fst (write_common_regs s) = 0"
  shows "snd (write_common_regs s) =
     (if common_regs_written s then s
      else s\<lparr>i2c_log := i2c_log s @ map reg_msg mode_common_regs @ map reg_msg (extra_regs s),
             common_regs_written := True\<rparr>)"
proof (cases "common_regs_written s")
  case True
  then show ?thesis by (simp add: write_common_regs_def)
next
  case False
  let ?a = "imx477_write_regs s mode_common_regs"
  let ?b = "imx477_write_regs (snd ?a) (extra_regs (snd ?a))"
  have e: "write_common_regs s =
      (if fst ?a \<noteq> 0 then ?a
       else if fst ?b \<noteq> 0 then ?b else (0, (snd ?b)\<lparr>common_regs_written := True\<rparr>))"
    using False by (simp add: write_common_regs_def split_beta)
  from assms e have a0: "fst ?a = 0" by (auto split: if_splits)
  with assms e have b0: "fst ?b = 0" by (auto split: if_splits)
  have sa: "snd ?a = s\<lparr>i2c_log := i2c_log s @ map reg_msg mode_common_regs\<rparr>"
    using a0 by (rule imx477_write_regs_success)
  have "snd ?b = (snd ?a)\<lparr>i2c_log := i2c_log (snd ?a) @ map reg_msg (extra_regs (snd ?a))\<rparr>"
    using b0 by (rule imx477_write_regs_success)
  then show ?thesis using False e a0 b0 by (simp add: sa)
qed

lemma imx477_start_streaming_log:
  assumes "fst (imx477_start_streaming s) = 0"
  shows "i2c_log (snd (imx477_start_streaming s)) =
           i2c_log (programmed s) @ replay_io (programmed s) @
           [I2C_send (write_reg_buf IMX477_REG_MODE_SELECT 1 IMX477_MODE_STREAMING)]"
    and "common_regs_written (snd (imx477_start_streaming s))"
proof -
  let ?a = "write_common_regs s"
  let ?b = "imx477_write_regs (snd ?a) (reg_list (cur_mode (snd ?a)))"
  let ?c = "v4l2_ctrl_handler_setup (snd ?b)"
  let ?d = "imx477_write_reg (snd ?c) IMX477_REG_MODE_SELECT IMX477_REG_VALUE_08BIT
              IMX477_MODE_STREAMING"
  have e: "imx477_start_streaming s =
      (if fst ?a \<noteq> 0 then ?a else if fst ?b \<noteq> 0 then ?b else if fst ?c \<noteq> 0 then ?c else ?d)"
    by (simp add: imx477_start_streaming_seq Let_def)
  from assms e have a0: "fst ?a = 0" by (auto split: if_splits)
  with assms e have b0: "fst ?b = 0" by (auto split: if_splits)
  with assms e a0 have c0: "fst ?c = 0" by (auto split: if_splits)
  have r: "imx477_start_streaming s = ?d" using e a0 b0 c0 by simp
  have sb: "snd ?b = programmed s"
    using imx477_write_regs_success [OF b0] write_common_regs_success [OF a0]
    by (simp add: programmed_def)
  from bus_run_handler_setup [of "snd ?b"] obtain xs where
    xs: "i2c_log (snd ?c) = i2c_log (snd ?b) @ xs" and sd: "same_device (snd ?b) (snd ?c)"
    by (auto simp: bus_run_def)
  have rp: "replay_io (snd ?b) = xs" by (simp add: replay_io_def xs)
  show "i2c_log (snd (imx477_start_streaming s)) =
           i2c_log (programmed s) @ replay_io (programmed s) @
           [I2C_send (write_reg_buf IMX477_REG_MODE_SELECT 1 IMX477_MODE_STREAMING)]"
    unfolding r using xs rp
    by (simp add: imx477_write_reg_sends IMX477_REG_VALUE_08BIT_def sb)
  have "common_regs_written (snd ?c)"
    using sd unfolding sb by (simp add: same_device_def programmed_def)
  then show "common_regs_written (snd (imx477_start_streaming s))"
    unfolding r by (simp add: imx477_write_reg_sends IMX477_REG_VALUE_08BIT_def)
qed

section \<open>Streaming state machine: properties\<close>

lemma imx477_write_reg_log_length:
  "length (i2c_log (snd (imx477_write_reg s reg len v))) \<le> Suc (length (i2c_log s))"
  by (cases "len \<le> 4") (simp_all add: imx477_write_reg_sends imx477_write_reg_einval not_le)

lemma imx477_set_frame_length_log_length:
  "length (i2c_log (snd (imx477_set_frame_length s v))) \<le> length (i2c_log s) + 2"
proof -
  obtain shift v' where "frame_length_loop 0 v = (shift, v')" by (cases "frame_length_loop 0 v")
  then show ?thesis by (simp add: imx477_set_frame_length_result)
qed

lemma imx477_set_ctrl_log_length:
  "length (i2c_log (snd (imx477_set_ctrl s cid)))
     \<le> length (i2c_log s) + (if cid = V4L2_CID_VBLANK then 2 else 1)"
proof (cases "cid = V4L2_CID_VBLANK")
  case True
  then show ?thesis
    using imx477_set_frame_length_log_length [of "imx477_adjust_exposure_range s"]
    by (simp add: imx477_set_ctrl_vblank pm_runtime_put_def imx477_adjust_exposure_range_frame)
next
  case False
  have "\<And>reg len v. length (i2c_log (pm_runtime_put (snd (imx477_write_reg s reg len v))))
      \<le> Suc (length (i2c_log s))"
    using imx477_write_reg_log_length by (simp add: pm_runtime_put_def)
  with False show ?thesis
    by (cases cid) (simp_all add: imx477_set_ctrl_def split_beta Let_def pm_runtime_put_def)
qed

lemma ctrl_replay_log_length:
  "length (i2c_log (snd (ctrl_replay s cs)))
     \<le> length (i2c_log s) + (\<Sum>c\<leftarrow>cs. if c = V4L2_CID_VBLANK then 2 else 1)"
proof (induction cs arbitrary: s)
  case Nil
  show ?case by simp
next
  case (Cons c cs)
  let ?w = "imx477_set_ctrl s c"
  have w: "length (i2c_log (snd ?w)) \<le> length (i2c_log s) + (if c = V4L2_CID_VBLANK then 2 else 1)"
    by (rule imx477_set_ctrl_log_length)
  show ?case
  proof (cases "fst ?w = 0")
    case True
    then have "ctrl_replay s (c # cs) = ctrl_replay (snd ?w) cs" by (simp add: split_beta)
    with Cons.IH [of "snd ?w"] w show ?thesis by simp
  next
    case False
    then have "ctrl_replay s (c # cs) = ?w" by (simp add: split_beta)
    with w show ?thesis by simp
  qed
qed

lemma v4l2_ctrl_handler_setup_log:
  "i2c_log (snd (v4l2_ctrl_handler_setup s)) = i2c_log s @ replay_io s"
proof -
  from bus_run_handler_setup [of s] obtain xs where
    "i2c_log (snd (v4l2_ctrl_handler_setup s)) = i2c_log s @ xs"
    by (auto simp: bus_run_def)
  then show ?thesis by (simp add: replay_io_def)
qed

lemma length_replay_io: "length (replay_io s) \<le> 13"
proof -
  have "length (i2c_log (snd (v4l2_ctrl_handler_setup s))) \<le> length (i2c_log s) + 13"
    using ctrl_replay_log_length [of s replayed_ctrls]
    by (simp add: v4l2_ctrl_handler_setup_def replayed_ctrls_def)
  then show ?thesis by (simp add: v4l2_ctrl_handler_setup_log)
qed

lemma mode_select_msgs:
  "write_reg_buf IMX477_REG_MODE_SELECT 1 IMX477_MODE_STREAMING = [0x01, 0x00, 0x01]"
  "write_reg_buf IMX477_REG_MODE_SELECT 1 IMX477_MODE_STANDBY = [0x01, 0x00, 0x00]"
  by (simp_all add: write_reg_buf_1 put_unaligned_be16_def IMX477_REG_MODE_SELECT_def
      IMX477_MODE_STREAMING_def IMX477_MODE_STANDBY_def)

lemma start_streaming_success_parts:
  assumes "\<not> streaming s" and "fst (start_streaming s) = 0"
  shows "0 \<le> fst (pm_runtime_get_sync (mutex_lock s))"
    and "fst (imx477_start_streaming (snd (pm_runtime_get_sync (mutex_lock s)))) = 0"
    and "snd (start_streaming s) =
           mutex_unlock (v4l2_ctrl_grab (v4l2_ctrl_grab
             ((snd (imx477_start_streaming (snd (pm_runtime_get_sync (mutex_lock s)))))
                \<lparr>streaming := True\<rparr>) V4L2_CID_VFLIP True) V4L2_CID_HFLIP True)"
  using assms(2) unfolding start_streaming_unfold [OF assms(1)]
  by (simp_all add: Let_def split: if_splits)

lemma start_streaming_log:
  assumes "\<not> streaming s" and "fst (start_streaming s) = 0"
  shows "\<exists>ctl. length ctl \<le> 13 \<and>
           i2c_log (snd (start_streaming s)) =
             i2c_log s @
             (if common_regs_written s then []
              else map reg_msg mode_common_regs @ map reg_msg (extra_regs s)) @
             map reg_msg (reg_list (cur_mode s)) @ ctl @ [I2C_send [0x01, 0x00, 0x01]]"
    and "common_regs_written (snd (start_streaming s))"
proof -
  let ?g = "pm_runtime_get_sync (mutex_lock s)"
  let ?b = "imx477_start_streaming (snd ?g)"
  note p = start_streaming_success_parts [OF assms]
  have lg: "i2c_log (snd ?g) = i2c_log s"
    using p(1) pm_runtime_get_sync_frame(9) [of "mutex_lock s"] by (simp add: mutex_lock_def)
  have fr: "common_regs_written (snd ?g) = common_regs_written s"
    "extra_regs (snd ?g) = extra_regs s" "cur_mode (snd ?g) = cur_mode s"
    by (simp_all add: pm_runtime_get_sync_frame mutex_lock_def)
  have "i2c_log (snd (start_streaming s)) = i2c_log (snd ?b)"
    unfolding p(3) by (simp add: mutex_unlock_def v4l2_ctrl_grab_def)
  also have "\<dots> = i2c_log (programmed (snd ?g)) @ replay_io (programmed (snd ?g)) @
      [I2C_send [0x01, 0x00, 0x01]]"
    using imx477_start_streaming_log(1) [OF p(2)] by (simp add: mode_select_msgs)
  finally have "i2c_log (snd (start_streaming s)) =
      i2c_log s @
      (if common_regs_written s then []
       else map reg_msg mode_common_regs @ map reg_msg (extra_regs s)) @
      map reg_msg (reg_list (cur_mode s)) @ replay_io (programmed (snd ?g)) @
      [I2C_send [0x01, 0x00, 0x01]]"
    by (simp add: programmed_def lg fr)
  then show "\<exists>ctl. length ctl \<le> 13 \<and>
           i2c_log (snd (start_streaming s)) =
             i2c_log s @
             (if common_regs_written s then []
              else map reg_msg mode_common_regs @ map reg_msg (extra_regs s)) @
             map reg_msg (reg_list (cur_mode s)) @ ctl @ [I2C_send [0x01, 0x00, 0x01]]"
    using length_replay_io by blast
  show "common_regs_written (snd (start_streaming s))"
    unfolding p(3) using imx477_start_streaming_log(2) [OF p(2)]
    by (simp add: mutex_unlock_def v4l2_ctrl_grab_def)
qed

text \<open>
  C6. \<open>start_streaming\<close> on a device that is already streaming, and
  \<open>stop_streaming\<close> on one that is not, return success and change nothing (the lock is
  taken and released). So after a successful \<open>start_streaming\<close>, which wrote the common
  program (if it was pending) and the mode program once, a second \<open>start_streaming\<close>
  returns success with the state, and in particular the bus log, unchanged: no register
  is written by the second call.
\<close>

theorem redundant_stream_calls_do_nothing:
  "(streaming s \<longrightarrow> start_streaming s = (0, s\<lparr>mutex_locked := False\<rparr>)) \<and>
   (\<not> streaming s \<longrightarrow> stop_streaming s = (0, s\<lparr>mutex_locked := False\<rparr>)) \<and>
   (\<not> streaming s \<and> fst (start_streaming s) = 0 \<longrightarrow>
      (\<exists>ctl. length ctl \<le> 13 \<and>
         i2c_log (snd (start_streaming s)) =
           i2c_log s @
           (if common_regs_written s then []
            else map reg_msg mode_common_regs @ map reg_msg (extra_regs s)) @
           map reg_msg (reg_list (cur_mode s)) @ ctl @ [I2C_send [0x01, 0x00, 0x01]]) \<and>
      start_streaming (snd (start_streaming s)) = (0, snd (start_streaming s)) \<and>
      i2c_log (snd (start_streaming (snd (start_streaming s)))) =
        i2c_log (snd (start_streaming s)))"
proof (intro conjI impI)
  assume "streaming s"
  then show "start_streaming s = (0, s\<lparr>mutex_locked := False\<rparr>)"
    unfolding start_streaming_def by (intro s_stream_noop) simp
next
  assume "\<not> streaming s"
  then show "stop_streaming s = (0, s\<lparr>mutex_locked := False\<rparr>)"
    unfolding stop_streaming_def by (intro s_stream_noop) simp
next
  assume a: "\<not> streaming s \<and> fst (start_streaming s) = 0"
  let ?s1 = "snd (start_streaming s)"
  from a show "\<exists>ctl. length ctl \<le> 13 \<and>
         i2c_log ?s1 =
           i2c_log s @
           (if common_regs_written s then []
            else map reg_msg mode_common_regs @ map reg_msg (extra_regs s)) @
           map reg_msg (reg_list (cur_mode s)) @ ctl @ [I2C_send [0x01, 0x00, 0x01]]"
    by (intro start_streaming_log(1)) simp_all
  have st: "streaming ?s1" "\<not> mutex_locked ?s1"
    using a by (simp_all add: start_streaming_success_state)
  then have "start_streaming ?s1 = (0, ?s1\<lparr>mutex_locked := False\<rparr>)"
    unfolding start_streaming_def by (intro s_stream_noop) simp
  then show n: "start_streaming ?s1 = (0, ?s1)" using st(2) by simp
  then show "i2c_log (snd (start_streaming ?s1)) = i2c_log ?s1" by simp
qed

lemma start_streaming_ok:
  assumes "\<not> streaming s" and "\<not> rpm_suspended s" and "\<forall>k. \<not> i2c_fail s k"
  shows "fst (start_streaming s) = 0"
proof -
  have g: "pm_runtime_get_sync (mutex_lock s) =
      (1, (mutex_lock s)\<lparr>rpm_usage := rpm_usage s + 1\<rparr>)"
    using assms(2) by (simp add: pm_runtime_get_sync_active mutex_lock_def)
  have "fst (imx477_start_streaming ((mutex_lock s)\<lparr>rpm_usage := rpm_usage s + 1\<rparr>)) = 0"
    using assms(3) by (intro imx477_start_streaming_ok) (simp add: mutex_lock_def)
  then show ?thesis
    unfolding start_streaming_unfold [OF assms(1)] g by (simp add: Let_def)
qed

lemma probed_dev_facts:
  "\<not> streaming probed_dev" "\<not> rpm_suspended probed_dev" "\<forall>k. \<not> i2c_fail probed_dev k"
  "\<not> mutex_locked probed_dev" "\<not> common_regs_written probed_dev"
  by (simp_all add: probed_dev_def)

theorem redundant_stream_calls_do_nothing_witness:
  "streaming (probed_dev\<lparr>streaming := True\<rparr>) \<and>
   start_streaming (probed_dev\<lparr>streaming := True\<rparr>) = (0, probed_dev\<lparr>streaming := True\<rparr>) \<and>
   \<not> streaming probed_dev \<and> stop_streaming probed_dev = (0, probed_dev) \<and>
   fst (start_streaming probed_dev) = 0 \<and>
   start_streaming (snd (start_streaming probed_dev)) = (0, snd (start_streaming probed_dev)) \<and>
   i2c_log (snd (start_streaming (snd (start_streaming probed_dev)))) =
     i2c_log (snd (start_streaming probed_dev))"
  using redundant_stream_calls_do_nothing [of "probed_dev\<lparr>streaming := True\<rparr>"]
    redundant_stream_calls_do_nothing [of probed_dev]
    start_streaming_ok [OF probed_dev_facts(1-3)]
  by (simp add: probed_dev_def)

lemma start_streaming_error_state:
  assumes "\<not> streaming s" and "start_streaming s = (e, s')" and "e \<noteq> 0"
  shows "\<not> streaming s' \<and> \<not> mutex_locked s' \<and> power_on s' = power_on s \<and>
         (\<forall>c. grabbed (ctrl_handler s' c) = grabbed (ctrl_handler s c)) \<and>
         (\<not> rpm_suspended s \<longrightarrow> hw_powered s' = hw_powered s) \<and>
         (0 \<le> fst (pm_runtime_get_sync (mutex_lock s)) \<longrightarrow>
            e = fst (imx477_start_streaming (snd (pm_runtime_get_sync (mutex_lock s)))) \<and>
            e = - EIO \<and>
            (\<exists>xs. xs \<noteq> [] \<and> i2c_log s' = i2c_log s @ xs \<and>
               (\<forall>k<length xs. i2c_fail s (length (i2c_log s) + k) \<longleftrightarrow> Suc k = length xs)))"
proof -
  let ?g = "pm_runtime_get_sync (mutex_lock s)"
  let ?b = "imx477_start_streaming (snd ?g)"
  note u = assms(2) [unfolded start_streaming_unfold [OF assms(1)] Let_def]
  have ns: "\<not> streaming (snd ?g)"
    using pm_runtime_get_sync_frame(8) [of "mutex_lock s"] assms(1) by (simp add: mutex_lock_def)
  have act: "\<not> rpm_suspended s \<Longrightarrow> ?g = (1, (mutex_lock s)\<lparr>rpm_usage := rpm_usage s + 1\<rparr>)"
    by (simp add: pm_runtime_get_sync_active mutex_lock_def)
  show ?thesis
  proof (cases "fst ?g < 0")
    case True
    with u have s': "s' = mutex_unlock (pm_runtime_put_noidle (snd ?g))" by simp
    have "rpm_suspended s"
    proof (rule ccontr)
      assume "\<not> rpm_suspended s"
      from act [OF this] True show False by simp
    qed
    then show ?thesis
      using True ns unfolding s'
      by (simp add: mutex_unlock_def pm_runtime_put_noidle_def pm_runtime_get_sync_frame
          mutex_lock_def)
  next
    case False
    have nz: "fst ?b \<noteq> 0" using u False assms(3) by (auto split: if_splits)
    with u False have e: "e = fst ?b" and s': "s' = mutex_unlock (pm_runtime_put (snd ?b))"
      by simp_all
    have br: "bus_run (snd ?g) (snd ?b) (fst ?b)" by (rule bus_run_start_streaming)
    then have sd: "same_device (snd ?g) (snd ?b)" by (simp add: bus_run_def)
    from br nz have "\<exists>xs. xs \<noteq> [] \<and> i2c_log (snd ?b) = i2c_log (snd ?g) @ xs \<and>
        (\<forall>k<length xs. i2c_fail (snd ?g) (length (i2c_log (snd ?g)) + k) \<longleftrightarrow>
           Suc k = length xs)"
      unfolding bus_run_def by auto
    moreover have "i2c_log (snd ?g) = i2c_log s" "i2c_fail (snd ?g) = i2c_fail s"
      using False pm_runtime_get_sync_frame(4,9) [of "mutex_lock s"]
      by (simp_all add: mutex_lock_def)
    ultimately have xs: "\<exists>xs. xs \<noteq> [] \<and> i2c_log s' = i2c_log s @ xs \<and>
        (\<forall>k<length xs. i2c_fail s (length (i2c_log s) + k) \<longleftrightarrow> Suc k = length xs)"
      unfolding s' by (simp add: mutex_unlock_def pm_runtime_put_def)
    have eio: "e = - EIO" using br nz e unfolding bus_run_def by auto
    have hw: "\<not> rpm_suspended s \<longrightarrow> hw_powered s' = hw_powered s"
      using sd act unfolding s'
      by (auto simp: same_device_def mutex_unlock_def pm_runtime_put_def mutex_lock_def)
    have fr: "\<not> streaming s'" "\<not> mutex_locked s'" "power_on s' = power_on s"
      "\<forall>c. grabbed (ctrl_handler s' c) = grabbed (ctrl_handler s c)"
      using sd ns unfolding s'
      by (simp_all add: same_device_def mutex_unlock_def pm_runtime_put_def
          pm_runtime_get_sync_frame mutex_lock_def)
    show ?thesis using fr hw e eio xs by simp
  qed
qed

lemma start_streaming_dev_bus_fault:
  "start_streaming dev_bus_fault =
     (- EIO, dev_bus_fault\<lparr>i2c_log :=
        [I2C_send [0x01, 0x03, 0x01], I2C_send [0x01, 0x36, 0x18], I2C_send [0x01, 0x37, 0x00]]\<rparr>)"
  by (simp add: start_streaming_def imx477_s_stream_def dev_bus_fault_def probed_dev_def
      mutex_lock_def mutex_unlock_def pm_runtime_get_sync_def pm_runtime_put_def
      imx477_start_streaming_def write_common_regs_def mode_common_regs_def mk_reg_def
      transport_eval EREMOTEIO_def EIO_def)

lemma same_device_set_ctrl: "same_device s (snd (imx477_set_ctrl s cid))"
proof (cases "cid \<in> set replayed_ctrls")
  case True
  from bus_run_set_ctrl [OF this] show ?thesis by (simp add: bus_run_def)
next
  case False
  then have "cid = V4L2_CID_LINK_FREQ \<or> cid = V4L2_CID_PIXEL_RATE"
    by (cases cid) (simp_all add: replayed_ctrls_def)
  then show ?thesis
    by (auto simp: imx477_set_ctrl_def same_device_def pm_runtime_put_def)
qed

lemma common_regs_written_kept:
  assumes "common_regs_written s"
  shows "common_regs_written (snd (imx477_s_stream s enable))"
    and "common_regs_written (snd (imx477_set_ctrl s cid))"
    and "common_regs_written (snd (v4l2_s_ctrl s cid v))"
    and "common_regs_written (snd (imx477_s_power s on))"
    and "common_regs_written (snd (imx477_power_on s))"
    and "common_regs_written (snd (imx477_resume s))"
proof -
  show "common_regs_written (snd (imx477_set_ctrl s cid))"
    using same_device_set_ctrl [of s cid] assms by (simp add: same_device_def)
  show "common_regs_written (snd (imx477_power_on s))"
    using assms by (simp add: imx477_power_on_def)
  show "common_regs_written (snd (imx477_resume s))"
    using assms by (simp add: imx477_resume_def imx477_power_on_def imx477_stop_streaming_eq)
  show "common_regs_written (snd (imx477_s_power s on))"
    using assms
    by (simp add: imx477_s_power_def Let_def split_beta mutex_lock_def mutex_unlock_def
        pm_runtime_put_def pm_runtime_put_noidle_def pm_runtime_get_sync_frame)
  show "common_regs_written (snd (v4l2_s_ctrl s cid v))"
  proof -
    let ?s1 = "(mutex_lock s)\<lparr>ctrl_handler := (ctrl_handler (mutex_lock s))
                 (cid := (ctrl_handler (mutex_lock s) cid)\<lparr>val := v\<rparr>)\<rparr>"
    have "common_regs_written (snd (imx477_set_ctrl ?s1 cid))"
      using same_device_set_ctrl [of ?s1 cid] assms by (simp add: same_device_def mutex_lock_def)
    then show ?thesis
      using assms
      by (simp add: v4l2_s_ctrl_def Let_def split_beta mutex_lock_def mutex_unlock_def)
  qed
  show "common_regs_written (snd (imx477_s_stream s enable))"
  proof -
    let ?g = "pm_runtime_get_sync (mutex_lock s)"
    have g: "common_regs_written (snd ?g)"
      using assms by (simp add: pm_runtime_get_sync_frame mutex_lock_def)
    have "same_device (snd ?g) (snd (imx477_start_streaming (snd ?g)))"
      using bus_run_start_streaming [of "snd ?g"] by (simp add: bus_run_def)
    with g have b: "common_regs_written (snd (imx477_start_streaming (snd ?g)))"
      by (simp add: same_device_def)
    have c: "common_regs_written (imx477_stop_streaming (mutex_lock s))"
      using assms by (simp add: imx477_stop_streaming_eq mutex_lock_def)
    show ?thesis
      using assms g b c
      by (simp add: imx477_s_stream_def Let_def split_beta mutex_unlock_def
          pm_runtime_put_def pm_runtime_put_noidle_def v4l2_ctrl_grab_def)
        (simp add: mutex_lock_def)
  qed
qed

lemma imx477_start_streaming_log_bounded:
  assumes "fst (imx477_start_streaming s) = 0"
  shows "\<exists>ctl. length ctl \<le> 13 \<and>
     i2c_log (snd (imx477_start_streaming s)) =
       i2c_log s @
       (if common_regs_written s then []
        else map reg_msg mode_common_regs @ map reg_msg (extra_regs s)) @
       map reg_msg (reg_list (cur_mode s)) @ ctl @ [I2C_send [0x01, 0x00, 0x01]]"
proof -
  have "i2c_log (snd (imx477_start_streaming s)) =
       i2c_log s @
       (if common_regs_written s then []
        else map reg_msg mode_common_regs @ map reg_msg (extra_regs s)) @
       map reg_msg (reg_list (cur_mode s)) @ replay_io (programmed s) @
       [I2C_send [0x01, 0x00, 0x01]]"
    using imx477_start_streaming_log(1) [OF assms]
    by (simp add: mode_select_msgs programmed_def)
  then show ?thesis using length_replay_io by blast
qed

lemma stop_streaming_state:
  assumes "streaming s"
  shows "stop_streaming s =
     (0, mutex_unlock (v4l2_ctrl_grab (v4l2_ctrl_grab
           ((pm_runtime_put (imx477_stop_streaming (mutex_lock s)))\<lparr>streaming := False\<rparr>)
           V4L2_CID_VFLIP False) V4L2_CID_HFLIP False))"
  using assms
  by (simp add: stop_streaming_def imx477_s_stream_def Let_def mutex_lock_def)

lemma stop_streaming_frame:
  assumes "streaming s"
  shows "\<not> streaming (snd (stop_streaming s))"
    "i2c_log (snd (stop_streaming s)) = i2c_log s @ [I2C_send [0x01, 0x00, 0x00]]"
    "common_regs_written (snd (stop_streaming s)) = common_regs_written s"
    "cur_mode (snd (stop_streaming s)) = cur_mode s"
    "extra_regs (snd (stop_streaming s)) = extra_regs s"
    "\<not> grabbed (hflip (snd (stop_streaming s)))"
    "\<not> grabbed (vflip (snd (stop_streaming s)))"
  unfolding stop_streaming_state [OF assms]
  by (simp_all add: mutex_unlock_def v4l2_ctrl_grab_def pm_runtime_put_def
      imx477_stop_streaming_eq mutex_lock_def mode_select_msgs hflip_def vflip_def)

lemma dev_streaming_facts:
  "streaming dev_streaming" "common_regs_written dev_streaming"
  "cur_mode dev_streaming = mode_4056x3040" "i2c_log dev_streaming = []"
  "grabbed (hflip dev_streaming)" "grabbed (vflip dev_streaming)"
  by (simp_all add: dev_streaming_def probed_dev_def hflip_def vflip_def mk_ctrl_def)

lemma restart_dev_streaming_ok:
  "fst (start_streaming (snd (stop_streaming dev_streaming))) = 0"
proof (rule start_streaming_ok)
  show "\<not> streaming (snd (stop_streaming dev_streaming))"
    by (rule stop_streaming_frame(1) [OF dev_streaming_facts(1)])
  show "\<not> rpm_suspended (snd (stop_streaming dev_streaming))"
    "\<forall>k. \<not> i2c_fail (snd (stop_streaming dev_streaming)) k"
    unfolding stop_streaming_state [OF dev_streaming_facts(1)]
    by (simp_all add: mutex_unlock_def v4l2_ctrl_grab_def pm_runtime_put_def
        imx477_stop_streaming_eq mutex_lock_def dev_streaming_def probed_dev_def)
qed

section \<open>The common-register flag\<close>

lemma imx477_write_regs_ok_iff:
  "fst (imx477_write_regs s regs) = 0 \<longleftrightarrow>
     (\<forall>k<length regs. \<not> i2c_fail s (length (i2c_log s) + k))"
proof (induction regs arbitrary: s)
  case Nil
  show ?case by simp
next
  case (Cons r regs)
  let ?s1 = "s\<lparr>i2c_log := i2c_log s @ [reg_msg r]\<rparr>"
  show ?case
  proof (cases "i2c_fail s (length (i2c_log s))")
    case True
    then have "fst (imx477_write_regs s (r # regs)) = - EIO"
      by (simp add: imx477_write_reg_sends reg_msg_def EIO_def)
    moreover have "\<not> (\<forall>k<length (r # regs). \<not> i2c_fail s (length (i2c_log s) + k))"
      using True by (auto intro: exI [of _ 0])
    ultimately show ?thesis by (simp add: EIO_def)
  next
    case False
    then have e: "imx477_write_regs s (r # regs) = imx477_write_regs ?s1 regs"
      by (simp add: imx477_write_reg_sends reg_msg_def)
    have "(\<forall>k<length (r # regs). \<not> i2c_fail s (length (i2c_log s) + k)) \<longleftrightarrow>
        (\<forall>k<length regs. \<not> i2c_fail s (Suc (length (i2c_log s)) + k))"
      using False by (auto simp: less_Suc_eq_0_disj)
    then show ?thesis unfolding e using Cons.IH [of ?s1] by simp
  qed
qed

lemma imx477_write_regs_flag:
  "common_regs_written (snd (imx477_write_regs s regs)) = common_regs_written s"
  "extra_regs (snd (imx477_write_regs s regs)) = extra_regs s"
  "i2c_fail (snd (imx477_write_regs s regs)) = i2c_fail s"
proof -
  obtain r s' where w: "imx477_write_regs s regs = (r, s')" by (cases "imx477_write_regs s regs")
  from imx477_write_regs_log [OF w] w
  show "common_regs_written (snd (imx477_write_regs s regs)) = common_regs_written s"
    "extra_regs (snd (imx477_write_regs s regs)) = extra_regs s"
    "i2c_fail (snd (imx477_write_regs s regs)) = i2c_fail s"
    by auto
qed

lemma imx477_set_frame_length_flag:
  "common_regs_written (snd (imx477_set_frame_length s v)) = common_regs_written s"
proof -
  obtain shift v' where "frame_length_loop 0 v = (shift, v')" by (cases "frame_length_loop 0 v")
  then show ?thesis by (simp add: imx477_set_frame_length_result)
qed

lemma imx477_write_reg_flag:
  "common_regs_written (snd (imx477_write_reg s reg len v)) = common_regs_written s"
  by (cases "len \<le> 4") (simp_all add: imx477_write_reg_sends imx477_write_reg_einval not_le)

lemma imx477_set_ctrl_flag:
  "common_regs_written (snd (imx477_set_ctrl s cid)) = common_regs_written s"
proof -
  have a: "common_regs_written (imx477_adjust_exposure_range s) = common_regs_written s"
    by (simp add: imx477_adjust_exposure_range_def Let_def)
  show ?thesis
    by (cases cid)
      (simp_all add: imx477_set_ctrl_def split_beta Let_def pm_runtime_put_def
        imx477_write_reg_flag imx477_set_frame_length_flag a)
qed

lemma ctrl_replay_flag:
  "common_regs_written (snd (ctrl_replay s cs)) = common_regs_written s"
proof (induction cs arbitrary: s)
  case Nil
  show ?case by simp
next
  case (Cons c cs)
  show ?case
    using Cons.IH [of "snd (imx477_set_ctrl s c)"] imx477_set_ctrl_flag [of s c]
    by (simp add: split_beta)
qed

lemma write_common_regs_flag:
  assumes "\<not> common_regs_written s"
  shows "common_regs_written (snd (write_common_regs s)) \<longleftrightarrow>
     (\<forall>k < length mode_common_regs + length (extra_regs s).
        \<not> i2c_fail s (length (i2c_log s) + k))"
proof -
  let ?a = "imx477_write_regs s mode_common_regs"
  let ?b = "imx477_write_regs (snd ?a) (extra_regs (snd ?a))"
  let ?n = "length mode_common_regs"
  have e: "write_common_regs s =
      (if fst ?a \<noteq> 0 then ?a
       else if fst ?b \<noteq> 0 then ?b else (0, (snd ?b)\<lparr>common_regs_written := True\<rparr>))"
    using assms by (simp add: write_common_regs_def split_beta)
  have fa: "fst ?a = 0 \<longleftrightarrow> (\<forall>k<?n. \<not> i2c_fail s (length (i2c_log s) + k))"
    by (rule imx477_write_regs_ok_iff)
  show ?thesis
  proof (cases "fst ?a = 0")
    case False
    then have "\<not> common_regs_written (snd (write_common_regs s))"
      using e assms by (simp add: imx477_write_regs_flag)
    moreover from False fa obtain k where "k < ?n" "i2c_fail s (length (i2c_log s) + k)"
      by auto
    then have "\<not> (\<forall>k < ?n + length (extra_regs s). \<not> i2c_fail s (length (i2c_log s) + k))"
      by (auto intro!: exI [of _ k])
    ultimately show ?thesis by simp
  next
    case True
    have sa: "snd ?a = s\<lparr>i2c_log := i2c_log s @ map reg_msg mode_common_regs\<rparr>"
      using True by (rule imx477_write_regs_success)
    have fb: "fst ?b = 0 \<longleftrightarrow>
        (\<forall>k<length (extra_regs s). \<not> i2c_fail s (length (i2c_log s) + ?n + k))"
      using imx477_write_regs_ok_iff [of "snd ?a" "extra_regs (snd ?a)"]
      by (simp add: sa)
    have split: "(\<forall>k < ?n + length (extra_regs s). \<not> i2c_fail s (length (i2c_log s) + k)) \<longleftrightarrow>
        (\<forall>k<?n. \<not> i2c_fail s (length (i2c_log s) + k)) \<and>
        (\<forall>k<length (extra_regs s). \<not> i2c_fail s (length (i2c_log s) + ?n + k))"
    proof (intro iffI conjI allI impI)
      fix k assume h: "\<forall>k < ?n + length (extra_regs s). \<not> i2c_fail s (length (i2c_log s) + k)"
      { assume "k < ?n" with h show "\<not> i2c_fail s (length (i2c_log s) + k)" by simp }
      { assume "k < length (extra_regs s)"
        with h have "\<not> i2c_fail s (length (i2c_log s) + (?n + k))" by simp
        then show "\<not> i2c_fail s (length (i2c_log s) + ?n + k)" by (simp add: add.assoc) }
    next
      fix k
      assume h: "(\<forall>k<?n. \<not> i2c_fail s (length (i2c_log s) + k)) \<and>
        (\<forall>k<length (extra_regs s). \<not> i2c_fail s (length (i2c_log s) + ?n + k))"
        and k: "k < ?n + length (extra_regs s)"
      show "\<not> i2c_fail s (length (i2c_log s) + k)"
      proof (cases "k < ?n")
        case True
        with h show ?thesis by simp
      next
        case False
        then obtain j where "k = ?n + j" "j < length (extra_regs s)"
          using k by (auto simp: not_less dest!: le_Suc_ex)
        with h show ?thesis by (simp add: add.assoc)
      qed
    qed
    have "common_regs_written (snd (write_common_regs s)) \<longleftrightarrow> fst ?b = 0"
      using e True assms by (simp add: imx477_write_regs_flag)
    then show ?thesis using fa fb True split by simp
  qed
qed

lemma imx477_start_streaming_flag:
  assumes "\<not> common_regs_written s"
  shows "common_regs_written (snd (imx477_start_streaming s)) \<longleftrightarrow>
     (\<forall>k < length mode_common_regs + length (extra_regs s).
        \<not> i2c_fail s (length (i2c_log s) + k))"
proof -
  have "common_regs_written (snd (imx477_start_streaming s)) =
      common_regs_written (snd (write_common_regs s))"
    by (simp add: imx477_start_streaming_seq Let_def imx477_write_regs_flag
        v4l2_ctrl_handler_setup_def ctrl_replay_flag imx477_write_reg_flag)
  then show ?thesis using write_common_regs_flag [OF assms] by simp
qed

lemma imx477_write_regs_prefix:
  "\<exists>n\<le>length regs.
     snd (imx477_write_regs s regs) = s\<lparr>i2c_log := i2c_log s @ take n (map reg_msg regs)\<rparr> \<and>
     (fst (imx477_write_regs s regs) = 0 \<longrightarrow> n = length regs)"
proof -
  obtain r s' where w: "imx477_write_regs s regs = (r, s')" by (cases "imx477_write_regs s regs")
  from imx477_write_regs_log [OF w] w show ?thesis by (auto simp: take_map)
qed

lemma start_streaming_traffic_order:
  "\<exists>xs. i2c_log (snd (imx477_start_streaming s)) = i2c_log s @ xs \<and>
        (xs = take (length xs) (start_programs s) \<or>
         start_programs s = take (length (start_programs s)) xs)"
proof -
  let ?C = "map reg_msg mode_common_regs"
  let ?E = "map reg_msg (extra_regs s)"
  let ?M = "map reg_msg (reg_list (cur_mode s))"
  let ?a = "write_common_regs s"
  let ?b = "imx477_write_regs (snd ?a) (reg_list (cur_mode (snd ?a)))"
  let ?c = "v4l2_ctrl_handler_setup (snd ?b)"
  let ?d = "imx477_write_reg (snd ?c) IMX477_REG_MODE_SELECT IMX477_REG_VALUE_08BIT
              IMX477_MODE_STREAMING"
  have e: "imx477_start_streaming s =
      (if fst ?a \<noteq> 0 then ?a else if fst ?b \<noteq> 0 then ?b else if fst ?c \<noteq> 0 then ?c else ?d)"
    by (simp add: imx477_start_streaming_seq Let_def)
  define P0 where "P0 = (if common_regs_written s then [] else ?C @ ?E)"
  have P: "start_programs s = P0 @ ?M" by (simp add: start_programs_def P0_def)
  have a: "\<exists>n\<le>length P0. i2c_log (snd ?a) = i2c_log s @ take n P0 \<and>
      (fst ?a = 0 \<longrightarrow> n = length P0) \<and> cur_mode (snd ?a) = cur_mode s"
  proof (cases "common_regs_written s")
    case True
    then show ?thesis by (simp add: write_common_regs_def P0_def)
  next
    case False
    let ?x = "imx477_write_regs s mode_common_regs"
    let ?y = "imx477_write_regs (snd ?x) (extra_regs (snd ?x))"
    have ea: "?a = (if fst ?x \<noteq> 0 then ?x
       else if fst ?y \<noteq> 0 then ?y else (0, (snd ?y)\<lparr>common_regs_written := True\<rparr>))"
      using False by (simp add: write_common_regs_def split_beta)
    from imx477_write_regs_prefix [of mode_common_regs s] obtain n where
      n: "n \<le> length mode_common_regs"
      "snd ?x = s\<lparr>i2c_log := i2c_log s @ take n ?C\<rparr>"
      "fst ?x = 0 \<longrightarrow> n = length mode_common_regs" by blast
    show ?thesis
    proof (cases "fst ?x = 0")
      case nz: False
      then have "?a = ?x" using ea by simp
      then show ?thesis
        using n nz False by (intro exI [of _ n]) (simp add: P0_def)
    next
      case z: True
      with n have sx: "snd ?x = s\<lparr>i2c_log := i2c_log s @ ?C\<rparr>" by simp
      from imx477_write_regs_prefix [of "extra_regs (snd ?x)" "snd ?x"] obtain m where
        m: "m \<le> length (extra_regs s)"
        "snd ?y = (snd ?x)\<lparr>i2c_log := i2c_log (snd ?x) @ take m ?E\<rparr>"
        "fst ?y = 0 \<longrightarrow> m = length (extra_regs s)"
        unfolding sx by auto
      have "i2c_log (snd ?a) = i2c_log s @ ?C @ take m ?E" "cur_mode (snd ?a) = cur_mode s"
        using ea z m(2) sx by (simp_all split: if_splits)
      moreover have "fst ?a = 0 \<longrightarrow> m = length (extra_regs s)"
        using ea z m(3) by (simp split: if_splits)
      ultimately show ?thesis
        using m(1) False
        by (intro exI [of _ "length mode_common_regs + m"]) (simp add: P0_def)
    qed
  qed
  then obtain n where n: "n \<le> length P0" "i2c_log (snd ?a) = i2c_log s @ take n P0"
    "fst ?a = 0 \<longrightarrow> n = length P0" "cur_mode (snd ?a) = cur_mode s" by blast
  show ?thesis
  proof (cases "fst ?a = 0")
    case False
    then have "imx477_start_streaming s = ?a" using e by simp
    then show ?thesis
      using n(1,2) by (intro exI [of _ "take n P0"]) (simp add: P min_absorb2)
  next
    case az: True
    with n have la: "i2c_log (snd ?a) = i2c_log s @ P0" by simp
    from imx477_write_regs_prefix [of "reg_list (cur_mode (snd ?a))" "snd ?a"] obtain m where
      m: "m \<le> length (reg_list (cur_mode s))"
      "snd ?b = (snd ?a)\<lparr>i2c_log := i2c_log (snd ?a) @ take m ?M\<rparr>"
      "fst ?b = 0 \<longrightarrow> m = length (reg_list (cur_mode s))"
      unfolding n(4) by auto
    show ?thesis
    proof (cases "fst ?b = 0")
      case False
      then have "imx477_start_streaming s = ?b" using e az by simp
      then show ?thesis
        using m(1,2) la by (intro exI [of _ "P0 @ take m ?M"]) (simp add: P min_absorb2)
    next
      case bz: True
      with m have lb: "i2c_log (snd ?b) = i2c_log s @ P0 @ ?M" using la by simp
      have "\<exists>ys. i2c_log (snd (imx477_start_streaming s)) = i2c_log (snd ?b) @ ys"
      proof -
        from bus_run_handler_setup [of "snd ?b"] obtain ys where
          ys: "i2c_log (snd ?c) = i2c_log (snd ?b) @ ys" by (auto simp: bus_run_def)
        have "i2c_log (snd ?d) = i2c_log (snd ?c) @
            [I2C_send (write_reg_buf IMX477_REG_MODE_SELECT 1 IMX477_MODE_STREAMING)]"
          by (simp add: imx477_write_reg_sends IMX477_REG_VALUE_08BIT_def)
        with ys show ?thesis using e az bz by (cases "fst ?c = 0") simp_all
      qed
      then obtain ys where "i2c_log (snd (imx477_start_streaming s)) = i2c_log s @ (P0 @ ?M) @ ys"
        using lb by auto
      then show ?thesis
        by (intro exI [of _ "(P0 @ ?M) @ ys"]) (simp add: P)
    qed
  qed
qed

text \<open>
  C7. \<open>__imx477_power_off\<close> clears \<open>common_regs_written\<close> whatever the state, and no
  other operation clears it: stream on or off, applying or setting a control, \<open>s_power\<close>,
  power-on and resume keep a set flag set. The bus traffic of \<open>__imx477_start_streaming\<close>
  always follows the order of the programs it has to send (the common program and the
  variant's extra registers exactly when the flag is clear, then the mode's program): it
  is a prefix of them or continues them. Starting with the flag clear, the flag is set
  afterwards exactly when every exchange of the common program and the extra registers
  succeeded. A successful run leaves the flag set, and its traffic is those programs, the
  control replay (at most 13 writes) and the stream-on write. Consequently
  \<open>stop_streaming\<close> followed by a successful \<open>start_streaming\<close> on a device whose
  common registers are written sends the standby write, the mode program, the control
  replay and the stream-on write, and not the common program.
\<close>

theorem common_regs_written_lifecycle:
  "\<not> common_regs_written (snd (imx477_power_off s)) \<and>
   (common_regs_written s \<longrightarrow>
      common_regs_written (snd (imx477_s_stream s enable)) \<and>
      common_regs_written (snd (imx477_set_ctrl s cid)) \<and>
      common_regs_written (snd (v4l2_s_ctrl s cid v)) \<and>
      common_regs_written (snd (imx477_s_power s on)) \<and>
      common_regs_written (snd (imx477_power_on s)) \<and>
      common_regs_written (snd (imx477_resume s))) \<and>
   (\<exists>xs. i2c_log (snd (imx477_start_streaming s)) = i2c_log s @ xs \<and>
      (xs = take (length xs) (start_programs s) \<or>
       start_programs s = take (length (start_programs s)) xs)) \<and>
   (\<not> common_regs_written s \<longrightarrow>
      (common_regs_written (snd (imx477_start_streaming s)) \<longleftrightarrow>
         (\<forall>k < length mode_common_regs + length (extra_regs s).
            \<not> i2c_fail s (length (i2c_log s) + k)))) \<and>
   (fst (imx477_start_streaming s) = 0 \<longrightarrow>
      common_regs_written (snd (imx477_start_streaming s)) \<and>
      (\<exists>ctl. length ctl \<le> 13 \<and>
         i2c_log (snd (imx477_start_streaming s)) =
           i2c_log s @
           (if common_regs_written s then []
            else map reg_msg mode_common_regs @ map reg_msg (extra_regs s)) @
           map reg_msg (reg_list (cur_mode s)) @ ctl @ [I2C_send [0x01, 0x00, 0x01]])) \<and>
   (streaming s \<and> common_regs_written s \<and>
    fst (start_streaming (snd (stop_streaming s))) = 0 \<longrightarrow>
      (\<exists>ctl. length ctl \<le> 13 \<and>
         i2c_log (snd (start_streaming (snd (stop_streaming s)))) =
           i2c_log s @ [I2C_send [0x01, 0x00, 0x00]] @
           map reg_msg (reg_list (cur_mode s)) @ ctl @ [I2C_send [0x01, 0x00, 0x01]]))"
proof (intro conjI impI)
  show "\<not> common_regs_written (snd (imx477_power_off s))"
    by (simp add: imx477_power_off_def)
next
  show "\<exists>xs. i2c_log (snd (imx477_start_streaming s)) = i2c_log s @ xs \<and>
      (xs = take (length xs) (start_programs s) \<or>
       start_programs s = take (length (start_programs s)) xs)"
    by (rule start_streaming_traffic_order)
next
  assume "\<not> common_regs_written s"
  then show "common_regs_written (snd (imx477_start_streaming s)) \<longleftrightarrow>
         (\<forall>k < length mode_common_regs + length (extra_regs s).
            \<not> i2c_fail s (length (i2c_log s) + k))"
    by (rule imx477_start_streaming_flag)
next
  assume a: "streaming s \<and> common_regs_written s \<and>
    fst (start_streaming (snd (stop_streaming s))) = 0"
  let ?s1 = "snd (stop_streaming s)"
  from a have st: "streaming s" by simp
  note f = stop_streaming_frame [OF st]
  from start_streaming_log(1) [OF f(1)] a show
    "\<exists>ctl. length ctl \<le> 13 \<and>
         i2c_log (snd (start_streaming ?s1)) =
           i2c_log s @ [I2C_send [0x01, 0x00, 0x00]] @
           map reg_msg (reg_list (cur_mode s)) @ ctl @ [I2C_send [0x01, 0x00, 0x01]]"
    by (simp add: f)
qed (simp_all add: common_regs_written_kept imx477_start_streaming_log(2)
      imx477_start_streaming_log_bounded)

theorem common_regs_written_lifecycle_witness:
  "\<not> common_regs_written (snd (imx477_power_off dev_streaming)) \<and>
   common_regs_written dev_streaming \<and>
   common_regs_written (snd (imx477_s_stream dev_streaming 0)) \<and>
   common_regs_written (snd (imx477_set_ctrl dev_streaming V4L2_CID_EXPOSURE)) \<and>
   common_regs_written (snd (v4l2_s_ctrl dev_streaming V4L2_CID_EXPOSURE 100)) \<and>
   common_regs_written (snd (imx477_s_power dev_streaming 1)) \<and>
   common_regs_written (snd (imx477_power_on dev_streaming)) \<and>
   common_regs_written (snd (imx477_resume dev_streaming)) \<and>
   \<not> common_regs_written probed_dev \<and>
   fst (imx477_start_streaming probed_dev) = 0 \<and>
   common_regs_written (snd (imx477_start_streaming probed_dev)) \<and>
   (\<exists>ctl. length ctl \<le> 13 \<and>
      i2c_log (snd (imx477_start_streaming probed_dev)) =
        map reg_msg mode_common_regs @ map reg_msg mode_4056x3040_regs @ ctl @
        [I2C_send [0x01, 0x00, 0x01]]) \<and>
   \<not> common_regs_written dev_bus_fault \<and>
   i2c_fail dev_bus_fault 2 \<and>
   \<not> common_regs_written (snd (imx477_start_streaming dev_bus_fault)) \<and>
   streaming dev_streaming \<and>
   fst (start_streaming (snd (stop_streaming dev_streaming))) = 0 \<and>
   (\<exists>ctl. length ctl \<le> 13 \<and>
      i2c_log (snd (start_streaming (snd (stop_streaming dev_streaming)))) =
        [I2C_send [0x01, 0x00, 0x00]] @ map reg_msg mode_4056x3040_regs @ ctl @
        [I2C_send [0x01, 0x00, 0x01]])"
proof -
  have ok: "fst (imx477_start_streaming probed_dev) = 0"
    by (rule imx477_start_streaming_ok) (simp add: probed_dev_def)
  have pd: "\<not> common_regs_written probed_dev" "extra_regs probed_dev = []"
    "i2c_log probed_dev = []" "reg_list (cur_mode probed_dev) = mode_4056x3040_regs"
    by (simp_all add: probed_dev_def mode_4056x3040_def)
  have rl: "reg_list mode_4056x3040 = mode_4056x3040_regs" by (simp add: mode_4056x3040_def)
  have bf: "\<not> common_regs_written dev_bus_fault" "i2c_log dev_bus_fault = []"
    "i2c_fail dev_bus_fault 2" "extra_regs dev_bus_fault = []"
    by (simp_all add: dev_bus_fault_def probed_dev_def)
  have ln: "(2::nat) < length mode_common_regs" by (simp add: mode_common_regs_def)
  have nf: "\<not> common_regs_written (snd (imx477_start_streaming dev_bus_fault))"
    using common_regs_written_lifecycle [of dev_bus_fault 0 V4L2_CID_EXPOSURE 100 1] bf ln
    by auto
  show ?thesis
    using common_regs_written_lifecycle [of dev_streaming 0 V4L2_CID_EXPOSURE 100 1]
      common_regs_written_lifecycle [of probed_dev 0 V4L2_CID_EXPOSURE 100 1]
      ok restart_dev_streaming_ok nf
    by (simp add: dev_streaming_facts pd rl bf probed_dev_facts)
qed

section \<open>Failure of the stream start\<close>

lemma replay_exchanges: "sum_list (map ctrl_exchanges replayed_ctrls) = 13"
  by (simp add: replayed_ctrls_def ctrl_exchanges_def)

lemma imx477_set_ctrl_log_exact:
  assumes "cid \<in> set replayed_ctrls" and "fst (imx477_set_ctrl s cid) = 0"
  shows "length (i2c_log (snd (imx477_set_ctrl s cid))) = length (i2c_log s) + ctrl_exchanges cid"
proof (cases "cid = V4L2_CID_VBLANK")
  case True
  obtain shift v' where l: "frame_length_loop 0 (height (cur_mode s) + val (vblank s)) = (shift, v')"
    by (cases "frame_length_loop 0 (height (cur_mode s) + val (vblank s))")
  show ?thesis
    using assms(2) True
    by (simp add: imx477_set_ctrl_vblank imx477_set_frame_length_result [OF l] pm_runtime_put_def
        imx477_adjust_exposure_range_frame ctrl_exchanges_def EIO_def split: if_splits)
next
  case False
  with assms(1) show ?thesis
    unfolding replayed_ctrls_def
    by (auto simp: imx477_set_ctrl_def split_beta Let_def pm_runtime_put_def
        imx477_write_reg_sends IMX477_REG_VALUE_16BIT_def IMX477_REG_VALUE_08BIT_def
        ctrl_exchanges_def)
qed

lemma ctrl_replay_log_exact:
  "set cs \<subseteq> set replayed_ctrls \<Longrightarrow> fst (ctrl_replay s cs) = 0 \<Longrightarrow>
     length (i2c_log (snd (ctrl_replay s cs))) =
       length (i2c_log s) + sum_list (map ctrl_exchanges cs)"
proof (induction cs arbitrary: s)
  case Nil
  show ?case by simp
next
  case (Cons c cs)
  let ?w = "imx477_set_ctrl s c"
  have z: "fst ?w = 0" using Cons.prems(2) by (simp add: split_beta split: if_splits)
  then have e: "ctrl_replay s (c # cs) = ctrl_replay (snd ?w) cs" by (simp add: split_beta)
  have "length (i2c_log (snd ?w)) = length (i2c_log s) + ctrl_exchanges c"
    using Cons.prems(1) z by (intro imx477_set_ctrl_log_exact) simp_all
  moreover have "length (i2c_log (snd (ctrl_replay (snd ?w) cs))) =
      length (i2c_log (snd ?w)) + sum_list (map ctrl_exchanges cs)"
    using Cons.prems e by (intro Cons.IH) simp_all
  ultimately show ?case unfolding e by simp
qed

lemma length_replay_io_ok:
  assumes "fst (v4l2_ctrl_handler_setup s) = 0"
  shows "length (replay_io s) = 13"
proof -
  have "length (i2c_log (snd (v4l2_ctrl_handler_setup s))) = length (i2c_log s) + 13"
    using ctrl_replay_log_exact [of replayed_ctrls s] assms
    by (simp add: v4l2_ctrl_handler_setup_def replay_exchanges)
  then show ?thesis by (simp add: v4l2_ctrl_handler_setup_log)
qed

lemma start_streaming_traffic_shape:
  "\<exists>xs. i2c_log (snd (imx477_start_streaming s)) = i2c_log s @ xs \<and>
     (fst (imx477_start_streaming s) \<noteq> 0 \<and>
        (\<exists>n\<le>length (start_programs s). xs = take n (start_programs s)) \<or>
      (\<exists>ctl. length ctl \<le> 13 \<and>
         (fst (imx477_start_streaming s) \<noteq> 0 \<and> xs = start_programs s @ ctl \<or>
          length ctl = 13 \<and>
          fst (imx477_start_streaming s) =
            (if i2c_fail s (length (i2c_log s) + length (start_programs s) + 13)
             then - EIO else 0) \<and>
          xs = start_programs s @ ctl @ [I2C_send [0x01, 0x00, 0x01]])))"
proof -
  let ?C = "map reg_msg mode_common_regs"
  let ?E = "map reg_msg (extra_regs s)"
  let ?M = "map reg_msg (reg_list (cur_mode s))"
  let ?a = "write_common_regs s"
  let ?b = "imx477_write_regs (snd ?a) (reg_list (cur_mode (snd ?a)))"
  let ?c = "v4l2_ctrl_handler_setup (snd ?b)"
  let ?d = "imx477_write_reg (snd ?c) IMX477_REG_MODE_SELECT IMX477_REG_VALUE_08BIT
              IMX477_MODE_STREAMING"
  have e: "imx477_start_streaming s =
      (if fst ?a \<noteq> 0 then ?a else if fst ?b \<noteq> 0 then ?b else if fst ?c \<noteq> 0 then ?c else ?d)"
    by (simp add: imx477_start_streaming_seq Let_def)
  define P0 where "P0 = (if common_regs_written s then [] else ?C @ ?E)"
  have P: "start_programs s = P0 @ ?M" by (simp add: start_programs_def P0_def)
  have a: "\<exists>n\<le>length P0. i2c_log (snd ?a) = i2c_log s @ take n P0 \<and>
      (fst ?a = 0 \<longrightarrow> n = length P0) \<and> cur_mode (snd ?a) = cur_mode s"
  proof (cases "common_regs_written s")
    case True
    then show ?thesis by (simp add: write_common_regs_def P0_def)
  next
    case False
    let ?x = "imx477_write_regs s mode_common_regs"
    let ?y = "imx477_write_regs (snd ?x) (extra_regs (snd ?x))"
    have ea: "?a = (if fst ?x \<noteq> 0 then ?x
       else if fst ?y \<noteq> 0 then ?y else (0, (snd ?y)\<lparr>common_regs_written := True\<rparr>))"
      using False by (simp add: write_common_regs_def split_beta)
    from imx477_write_regs_prefix [of mode_common_regs s] obtain n where
      n: "n \<le> length mode_common_regs"
      "snd ?x = s\<lparr>i2c_log := i2c_log s @ take n ?C\<rparr>"
      "fst ?x = 0 \<longrightarrow> n = length mode_common_regs" by blast
    show ?thesis
    proof (cases "fst ?x = 0")
      case nz: False
      then have "?a = ?x" using ea by simp
      then show ?thesis
        using n nz False by (intro exI [of _ n]) (simp add: P0_def)
    next
      case z: True
      with n have sx: "snd ?x = s\<lparr>i2c_log := i2c_log s @ ?C\<rparr>" by simp
      from imx477_write_regs_prefix [of "extra_regs (snd ?x)" "snd ?x"] obtain m where
        m: "m \<le> length (extra_regs s)"
        "snd ?y = (snd ?x)\<lparr>i2c_log := i2c_log (snd ?x) @ take m ?E\<rparr>"
        "fst ?y = 0 \<longrightarrow> m = length (extra_regs s)"
        unfolding sx by auto
      have "i2c_log (snd ?a) = i2c_log s @ ?C @ take m ?E" "cur_mode (snd ?a) = cur_mode s"
        using ea z m(2) sx by (simp_all split: if_splits)
      moreover have "fst ?a = 0 \<longrightarrow> m = length (extra_regs s)"
        using ea z m(3) by (simp split: if_splits)
      ultimately show ?thesis
        using m(1) False
        by (intro exI [of _ "length mode_common_regs + m"]) (simp add: P0_def)
    qed
  qed
  then obtain n where n: "n \<le> length P0" "i2c_log (snd ?a) = i2c_log s @ take n P0"
    "fst ?a = 0 \<longrightarrow> n = length P0" "cur_mode (snd ?a) = cur_mode s" by blast
  show ?thesis
  proof (cases "fst ?a = 0")
    case False
    then have "imx477_start_streaming s = ?a" using e by simp
    then show ?thesis
      using n(1,2) False
      by (intro exI [of _ "take n P0"]) (auto simp: P intro!: exI [of _ n])
  next
    case az: True
    with n have la: "i2c_log (snd ?a) = i2c_log s @ P0" by simp
    from imx477_write_regs_prefix [of "reg_list (cur_mode (snd ?a))" "snd ?a"] obtain m where
      m: "m \<le> length (reg_list (cur_mode s))"
      "snd ?b = (snd ?a)\<lparr>i2c_log := i2c_log (snd ?a) @ take m ?M\<rparr>"
      "fst ?b = 0 \<longrightarrow> m = length (reg_list (cur_mode s))"
      unfolding n(4) by auto
    show ?thesis
    proof (cases "fst ?b = 0")
      case False
      then have "imx477_start_streaming s = ?b" using e az by simp
      then show ?thesis
        using m(1,2) la False
        by (intro exI [of _ "P0 @ take m ?M"]) (auto simp: P intro!: exI [of _ "length P0 + m"])
    next
      case bz: True
      with m have lb: "i2c_log (snd ?b) = i2c_log s @ P0 @ ?M" using la by simp
      have lc: "i2c_log (snd ?c) = i2c_log s @ (P0 @ ?M) @ replay_io (snd ?b)"
        using v4l2_ctrl_handler_setup_log [of "snd ?b"] lb by simp
      have fc: "i2c_fail (snd ?c) = i2c_fail s"
      proof -
        have "same_device (snd ?b) (snd ?c)"
          using bus_run_handler_setup [of "snd ?b"] by (simp add: bus_run_def)
        moreover have "same_device s (snd ?a)"
          using bus_run_write_common_regs [of s] by (simp add: bus_run_def)
        moreover have "same_device (snd ?a) (snd ?b)"
          using bus_run_write_regs [of "snd ?a"] by (simp add: bus_run_def)
        ultimately show ?thesis by (simp add: same_device_def)
      qed
      show ?thesis
      proof (cases "fst ?c = 0")
        case False
        then have "imx477_start_streaming s = ?c" using e az bz by simp
        then show ?thesis
          using lc length_replay_io [of "snd ?b"] False
          by (intro exI [of _ "(P0 @ ?M) @ replay_io (snd ?b)"]) (auto simp: P)
      next
        case cz: True
        then have r: "imx477_start_streaming s = ?d" using e az bz by simp
        have l13: "length (replay_io (snd ?b)) = 13" using cz by (rule length_replay_io_ok)
        have "i2c_log (snd ?d) = i2c_log s @ (P0 @ ?M) @ replay_io (snd ?b) @
            [I2C_send [0x01, 0x00, 0x01]]"
          using lc by (simp add: imx477_write_reg_sends IMX477_REG_VALUE_08BIT_def mode_select_msgs)
        moreover have "fst ?d = (if i2c_fail s (length (i2c_log s) + length (P0 @ ?M) + 13)
            then - EIO else 0)"
          using lc l13 fc by (simp add: imx477_write_reg_sends IMX477_REG_VALUE_08BIT_def add.assoc)
        ultimately have "i2c_log (snd (imx477_start_streaming s)) =
            i2c_log s @ start_programs s @ replay_io (snd ?b) @ [I2C_send [0x01, 0x00, 0x01]]"
          "fst (imx477_start_streaming s) =
             (if i2c_fail s (length (i2c_log s) + length (start_programs s) + 13)
              then - EIO else 0)"
          unfolding r by (simp_all add: P)
        with l13 show ?thesis by (intro exI conjI disjI2) (assumption, simp_all)
      qed
    qed
  qed
qed

lemma start_exchanges_eq: "start_exchanges s = length (start_programs s) + 14"
  by (simp add: start_exchanges_def replay_exchanges)

lemma imx477_start_streaming_first_failure:
  assumes k: "k < start_exchanges s"
    and f: "i2c_fail s (length (i2c_log s) + k)"
    and l: "\<forall>j<k. \<not> i2c_fail s (length (i2c_log s) + j)"
  shows "fst (imx477_start_streaming s) = - EIO"
    and "length (i2c_log (snd (imx477_start_streaming s))) = length (i2c_log s) + Suc k"
    and "take (length (i2c_log s)) (i2c_log (snd (imx477_start_streaming s))) = i2c_log s"
    and "k < length (start_programs s) \<longrightarrow>
           i2c_log (snd (imx477_start_streaming s)) = i2c_log s @ take (Suc k) (start_programs s)"
    and "length (start_programs s) \<le> k \<longrightarrow>
           take (length (i2c_log s) + length (start_programs s))
             (i2c_log (snd (imx477_start_streaming s))) = i2c_log s @ start_programs s"
    and "Suc k = start_exchanges s \<longrightarrow>
           (\<exists>ctl. length ctl = 13 \<and>
              i2c_log (snd (imx477_start_streaming s)) =
                i2c_log s @ start_programs s @ ctl @ [I2C_send [0x01, 0x00, 0x01]])"
proof -
  let ?b = "imx477_start_streaming s"
  let ?P = "start_programs s"
  let ?n = "length (i2c_log s)"
  note N = start_exchanges_eq [of s]
  have "\<exists>xs. i2c_log (snd ?b) = i2c_log s @ xs \<and>
      (\<forall>j<length xs. i2c_fail s (?n + j) \<longleftrightarrow> (fst ?b \<noteq> 0 \<and> Suc j = length xs)) \<and>
      (fst ?b \<noteq> 0 \<longrightarrow> fst ?b = - EIO \<and> xs \<noteq> [])"
    using bus_run_start_streaming [of s] unfolding bus_run_def by auto
  then obtain xs where xs: "i2c_log (snd ?b) = i2c_log s @ xs"
    "\<forall>j<length xs. i2c_fail s (?n + j) \<longleftrightarrow> (fst ?b \<noteq> 0 \<and> Suc j = length xs)"
    "fst ?b \<noteq> 0 \<longrightarrow> fst ?b = - EIO \<and> xs \<noteq> []" by blast
  from start_streaming_traffic_shape [of s] xs(1)
  have shape: "fst ?b \<noteq> 0 \<and> (\<exists>n\<le>length ?P. xs = take n ?P) \<or>
      (\<exists>ctl. length ctl \<le> 13 \<and>
         (fst ?b \<noteq> 0 \<and> xs = ?P @ ctl \<or>
          length ctl = 13 \<and>
          fst ?b = (if i2c_fail s (?n + length ?P + 13) then - EIO else 0) \<and>
          xs = ?P @ ctl @ [I2C_send [0x01, 0x00, 0x01]]))"
    by auto
  have nz: "fst ?b \<noteq> 0"
  proof
    assume z: "fst ?b = 0"
    with shape have "length xs = length ?P + 14" by auto
    with k N have "k < length xs" by simp
    with xs(2) z f show False by simp
  qed
  with xs(3) show eio: "fst ?b = - EIO" by simp
  from nz xs(3) have ne: "xs \<noteq> []" by simp
  then have last: "length xs - 1 < length xs" "Suc (length xs - 1) = length xs"
    by (cases xs; simp)+
  with xs(2) nz have fl: "i2c_fail s (?n + (length xs - 1))" by blast
  have le: "k \<le> length xs - 1"
  proof (rule ccontr)
    assume "\<not> k \<le> length xs - 1"
    then have "length xs - 1 < k" by simp
    with l fl show False by blast
  qed
  have len: "length xs = Suc k"
  proof -
    from le last have "k < length xs" by linarith
    with xs(2) f have "Suc k = length xs" by blast
    then show ?thesis by simp
  qed
  show "length (i2c_log (snd ?b)) = ?n + Suc k" using xs(1) len by simp
  show "take ?n (i2c_log (snd ?b)) = i2c_log s" using xs(1) by simp
  from shape consider
      (A) n where "n \<le> length ?P" "xs = take n ?P"
    | (B) ctl where "length ctl \<le> 13" "xs = ?P @ ctl"
    | (C) ctl where "length ctl = 13" "xs = ?P @ ctl @ [I2C_send [0x01, 0x00, 0x01]]"
    by blast
  then have parts: "(k < length ?P \<longrightarrow> xs = take (Suc k) ?P) \<and>
      (length ?P \<le> k \<longrightarrow> take (length ?P) xs = ?P) \<and>
      (length xs = length ?P + 14 \<longrightarrow>
         (\<exists>ctl. length ctl = 13 \<and> xs = ?P @ ctl @ [I2C_send [0x01, 0x00, 0x01]]))"
  proof cases
    case A
    then have "length xs = n" by simp
    with len have "n = Suc k" by simp
    with A show ?thesis by simp
  next
    case B
    with len have s: "Suc k = length ?P + length ctl" by simp
    have "k < length ?P \<longrightarrow> xs = take (Suc k) ?P"
    proof
      assume "k < length ?P"
      with s have "length ctl = 0 \<and> Suc k = length ?P" by linarith
      with B(2) show "xs = take (Suc k) ?P" by simp
    qed
    moreover have "take (length ?P) xs = ?P" using B(2) by simp
    moreover have "length xs \<noteq> length ?P + 14" using B by simp
    ultimately show ?thesis by simp
  next
    case C
    with len have s: "Suc k = length ?P + 14" by simp
    then have "\<not> k < length ?P" by simp
    moreover have "take (length ?P) xs = ?P" using C(2) by simp
    ultimately show ?thesis using C by blast
  qed
  from parts xs(1) show "k < length ?P \<longrightarrow> i2c_log (snd ?b) = i2c_log s @ take (Suc k) ?P"
    by simp
  from parts xs(1) show "length ?P \<le> k \<longrightarrow>
      take (?n + length ?P) (i2c_log (snd ?b)) = i2c_log s @ ?P"
    by simp
  show "Suc k = start_exchanges s \<longrightarrow>
           (\<exists>ctl. length ctl = 13 \<and>
              i2c_log (snd ?b) = i2c_log s @ ?P @ ctl @ [I2C_send [0x01, 0x00, 0x01]])"
  proof
    assume "Suc k = start_exchanges s"
    with N len have "length xs = length ?P + 14" by simp
    with parts obtain ctl where "length ctl = 13"
      "xs = ?P @ ctl @ [I2C_send [0x01, 0x00, 0x01]]" by blast
    with xs(1) show "\<exists>ctl. length ctl = 13 \<and>
        i2c_log (snd ?b) = i2c_log s @ ?P @ ctl @ [I2C_send [0x01, 0x00, 0x01]]" by auto
  qed
qed

lemma pm_runtime_get_sync_resumed:
  "0 \<le> fst (pm_runtime_get_sync s) \<Longrightarrow>
     \<not> rpm_suspended (snd (pm_runtime_get_sync s)) \<and>
     hw_powered (snd (pm_runtime_get_sync s)) = (if rpm_suspended s then True else hw_powered s)"
  by (simp add: pm_runtime_get_sync_def imx477_resume_def imx477_power_on_def
      imx477_stop_streaming_eq Let_def split: if_splits)

lemma pm_runtime_get_sync_nonneg_iff:
  "0 \<le> fst (pm_runtime_get_sync s) \<longleftrightarrow>
     (rpm_suspended s \<longrightarrow> regulator_err s = 0 \<and> clk_err s = 0)"
  by (simp add: pm_runtime_get_sync_def imx477_resume_def imx477_power_on_def Let_def)

lemma pm_runtime_get_sync_error:
  "rpm_suspended s \<Longrightarrow> regulator_err s \<noteq> 0 \<or> clk_err s \<noteq> 0 \<Longrightarrow>
     fst (pm_runtime_get_sync s) =
       (if regulator_err s \<noteq> 0 then - int (regulator_err s) else - int (clk_err s))"
  by (auto simp: pm_runtime_get_sync_def imx477_resume_def imx477_power_on_def Let_def)

lemma start_programs_cong:
  "common_regs_written s' = common_regs_written s \<Longrightarrow> extra_regs s' = extra_regs s \<Longrightarrow>
     cur_mode s' = cur_mode s \<Longrightarrow> start_programs s' = start_programs s"
  by (simp add: start_programs_def)

lemma length_mode_regs:
  "length mode_common_regs = 114" "length mode_4056x3040_regs = 72"
  by (simp_all add: mode_common_regs_def mode_4056x3040_regs_def)

lemma start_exchanges_probed:
  "start_exchanges probed_dev = 200"
  "start_exchanges dev_bus_fault = 200"
  "start_exchanges dev_stream_on_fault = 200"
  by (simp_all add: start_exchanges_eq start_programs_def probed_dev_def dev_bus_fault_def
      dev_stream_on_fault_def mode_4056x3040_def length_mode_regs)

lemma dev_bus_fault_facts:
  "\<not> streaming dev_bus_fault" "\<not> rpm_suspended dev_bus_fault" "i2c_log dev_bus_fault = []"
  "i2c_fail dev_bus_fault k = (k = 2)"
  by (simp_all add: dev_bus_fault_def probed_dev_def)

lemma dev_stream_on_fault_facts:
  "\<not> streaming dev_stream_on_fault" "\<not> rpm_suspended dev_stream_on_fault"
  "i2c_log dev_stream_on_fault = []" "i2c_fail dev_stream_on_fault k = (k = 199)"
  by (simp_all add: dev_stream_on_fault_def probed_dev_def)

lemma dev_power_fault_facts:
  "\<not> streaming dev_power_fault" "rpm_suspended dev_power_fault"
  "regulator_err dev_power_fault = 5"
  by (simp_all add: dev_power_fault_def probed_dev_def)

lemma start_programs_dev_bus_fault:
  "take 3 (start_programs dev_bus_fault) =
     [I2C_send [0x01, 0x03, 0x01], I2C_send [0x01, 0x36, 0x18], I2C_send [0x01, 0x37, 0x00]]"
  by (simp add: start_programs_def dev_bus_fault_def probed_dev_def mode_common_regs_def
      mk_reg_def reg_msg_def transport_eval)

text \<open>
  C8. Take a device that is not streaming and that is powered or can be resumed. A
  complete stream start puts \<open>start_exchanges s\<close> exchanges on the bus: the common
  program and the extra registers when they are pending, the mode program, the 13 writes
  of the control replay and the stream-on write. If the \<open>k\<close>-th of them (counted from
  0) is the first one that fails, whichever step it belongs to, then
  \<open>start_streaming\<close> returns the error of that write, \<open>-EIO\<close>; the device is
  not streaming, the lock is released, the \<open>power_on\<close> flag and the grab flags are as
  before and the device is powered; and the sequence stopped there: exactly \<open>k + 1\<close>
  exchanges were added to the bus log, which are the first \<open>k + 1\<close> writes of the
  register programs when the failure is among them and begin with the complete programs
  otherwise; when the failing exchange is the last of the sequence it is the stream-on
  write, after the programs and the 13 control writes. If the device is suspended and
  cannot be powered, \<open>start_streaming\<close> returns the power error. Whenever
  \<open>start_streaming\<close> returns an error, the device is not streaming, the lock is
  released, and \<open>power_on\<close> and the grab flags are as before. It returns success
  only when no exchange of the sequence failed, and then the device is streaming.
\<close>

theorem start_streaming_failure_state:
  assumes "\<not> streaming s"
  shows
    "((rpm_suspended s \<longrightarrow> regulator_err s = 0 \<and> clk_err s = 0) \<and>
      k < start_exchanges s \<and> i2c_fail s (length (i2c_log s) + k) \<and>
      (\<forall>j<k. \<not> i2c_fail s (length (i2c_log s) + j)) \<longrightarrow>
        fst (start_streaming s) = - EIO \<and>
        \<not> streaming (snd (start_streaming s)) \<and>
        \<not> mutex_locked (snd (start_streaming s)) \<and>
        power_on (snd (start_streaming s)) = power_on s \<and>
        \<not> rpm_suspended (snd (start_streaming s)) \<and>
        hw_powered (snd (start_streaming s)) = (rpm_suspended s \<or> hw_powered s) \<and>
        (\<forall>c. grabbed (ctrl_handler (snd (start_streaming s)) c) = grabbed (ctrl_handler s c)) \<and>
        length (i2c_log (snd (start_streaming s))) = length (i2c_log s) + Suc k \<and>
        take (length (i2c_log s)) (i2c_log (snd (start_streaming s))) = i2c_log s \<and>
        (k < length (start_programs s) \<longrightarrow>
           i2c_log (snd (start_streaming s)) = i2c_log s @ take (Suc k) (start_programs s)) \<and>
        (length (start_programs s) \<le> k \<longrightarrow>
           take (length (i2c_log s) + length (start_programs s)) (i2c_log (snd (start_streaming s)))
             = i2c_log s @ start_programs s) \<and>
        (Suc k = start_exchanges s \<longrightarrow>
           (\<exists>ctl. length ctl = 13 \<and>
              i2c_log (snd (start_streaming s)) =
                i2c_log s @ start_programs s @ ctl @ [I2C_send [0x01, 0x00, 0x01]]))) \<and>
     (rpm_suspended s \<and> (regulator_err s \<noteq> 0 \<or> clk_err s \<noteq> 0) \<longrightarrow>
        fst (start_streaming s) =
          (if regulator_err s \<noteq> 0 then - int (regulator_err s) else - int (clk_err s)) \<and>
        fst (start_streaming s) \<noteq> 0) \<and>
     (fst (start_streaming s) \<noteq> 0 \<longrightarrow>
        \<not> streaming (snd (start_streaming s)) \<and>
        \<not> mutex_locked (snd (start_streaming s)) \<and>
        power_on (snd (start_streaming s)) = power_on s \<and>
        (\<forall>c. grabbed (ctrl_handler (snd (start_streaming s)) c) = grabbed (ctrl_handler s c))) \<and>
     (fst (start_streaming s) = 0 \<longrightarrow>
        streaming (snd (start_streaming s)) \<and>
        (\<forall>j < start_exchanges s. \<not> i2c_fail s (length (i2c_log s) + j)))"
proof -
  let ?g = "pm_runtime_get_sync (mutex_lock s)"
  let ?b = "imx477_start_streaming (snd ?g)"
  let ?r = "start_streaming s"
  note u = start_streaming_unfold [OF assms, unfolded Let_def]
  have pw: "0 \<le> fst ?g \<longleftrightarrow> (rpm_suspended s \<longrightarrow> regulator_err s = 0 \<and> clk_err s = 0)"
    by (simp add: pm_runtime_get_sync_nonneg_iff mutex_lock_def)
  have sp: "start_programs (snd ?g) = start_programs s"
    by (rule start_programs_cong) (simp_all add: pm_runtime_get_sync_frame mutex_lock_def)
  have se: "start_exchanges (snd ?g) = start_exchanges s"
    by (simp add: start_exchanges_def sp)
  have fr0: "i2c_fail (snd ?g) = i2c_fail s" "power_on (snd ?g) = power_on s"
    "ctrl_handler (snd ?g) = ctrl_handler s"
    by (simp_all add: pm_runtime_get_sync_frame mutex_lock_def)
  note fr = fr0 sp se
  have lg: "0 \<le> fst ?g \<Longrightarrow> i2c_log (snd ?g) = i2c_log s \<and> \<not> streaming (snd ?g)"
    using pm_runtime_get_sync_frame(9) [of "mutex_lock s"] assms by (simp add: mutex_lock_def)
  have err: "fst ?r \<noteq> 0 \<longrightarrow>
        \<not> streaming (snd ?r) \<and> \<not> mutex_locked (snd ?r) \<and> power_on (snd ?r) = power_on s \<and>
        (\<forall>c. grabbed (ctrl_handler (snd ?r) c) = grabbed (ctrl_handler s c))"
  proof
    assume nz: "fst ?r \<noteq> 0"
    have "?r = (fst ?r, snd ?r)" by simp
    from start_streaming_error_state [OF assms this nz]
    show "\<not> streaming (snd ?r) \<and> \<not> mutex_locked (snd ?r) \<and> power_on (snd ?r) = power_on s \<and>
        (\<forall>c. grabbed (ctrl_handler (snd ?r) c) = grabbed (ctrl_handler s c))"
      by simp
  qed
  have first: "(rpm_suspended s \<longrightarrow> regulator_err s = 0 \<and> clk_err s = 0) \<and>
      k < start_exchanges s \<and> i2c_fail s (length (i2c_log s) + k) \<and>
      (\<forall>j<k. \<not> i2c_fail s (length (i2c_log s) + j)) \<longrightarrow>
        fst ?r = - EIO \<and> \<not> streaming (snd ?r) \<and> \<not> mutex_locked (snd ?r) \<and>
        power_on (snd ?r) = power_on s \<and> \<not> rpm_suspended (snd ?r) \<and>
        hw_powered (snd ?r) = (rpm_suspended s \<or> hw_powered s) \<and>
        (\<forall>c. grabbed (ctrl_handler (snd ?r) c) = grabbed (ctrl_handler s c)) \<and>
        length (i2c_log (snd ?r)) = length (i2c_log s) + Suc k \<and>
        take (length (i2c_log s)) (i2c_log (snd ?r)) = i2c_log s \<and>
        (k < length (start_programs s) \<longrightarrow>
           i2c_log (snd ?r) = i2c_log s @ take (Suc k) (start_programs s)) \<and>
        (length (start_programs s) \<le> k \<longrightarrow>
           take (length (i2c_log s) + length (start_programs s)) (i2c_log (snd ?r))
             = i2c_log s @ start_programs s) \<and>
        (Suc k = start_exchanges s \<longrightarrow>
           (\<exists>ctl. length ctl = 13 \<and>
              i2c_log (snd ?r) =
                i2c_log s @ start_programs s @ ctl @ [I2C_send [0x01, 0x00, 0x01]]))"
  proof
    assume h: "(rpm_suspended s \<longrightarrow> regulator_err s = 0 \<and> clk_err s = 0) \<and>
      k < start_exchanges s \<and> i2c_fail s (length (i2c_log s) + k) \<and>
      (\<forall>j<k. \<not> i2c_fail s (length (i2c_log s) + j))"
    then have g0: "0 \<le> fst ?g" using pw by simp
    note l = lg [OF g0]
    from h have k: "k < start_exchanges (snd ?g)"
      "i2c_fail (snd ?g) (length (i2c_log (snd ?g)) + k)"
      "\<forall>j<k. \<not> i2c_fail (snd ?g) (length (i2c_log (snd ?g)) + j)"
      by (simp_all add: fr l)
    note ff = imx477_start_streaming_first_failure [OF k, unfolded fr]
    have nz: "fst ?b \<noteq> 0" using ff(1) by (simp add: EIO_def)
    have r: "?r = (fst ?b, mutex_unlock (pm_runtime_put (snd ?b)))"
      using u g0 nz by simp
    have sd: "same_device (snd ?g) (snd ?b)"
      using bus_run_start_streaming [of "snd ?g"] by (simp add: bus_run_def)
    have hw: "\<not> rpm_suspended (snd ?g)"
      "hw_powered (snd ?g) = (rpm_suspended s \<or> hw_powered s)"
      using pm_runtime_get_sync_resumed [OF g0] by (simp_all add: mutex_lock_def)
    have st: "\<not> streaming (snd ?r)" "\<not> mutex_locked (snd ?r)" "power_on (snd ?r) = power_on s"
      "\<not> rpm_suspended (snd ?r)" "hw_powered (snd ?r) = (rpm_suspended s \<or> hw_powered s)"
      "\<forall>c. grabbed (ctrl_handler (snd ?r) c) = grabbed (ctrl_handler s c)"
      using sd l hw unfolding r
      by (simp_all add: same_device_def mutex_unlock_def pm_runtime_put_def fr)
    have lr: "i2c_log (snd ?r) = i2c_log (snd ?b)"
      unfolding r by (simp add: mutex_unlock_def pm_runtime_put_def)
    have c1: "fst ?r = - EIO" unfolding r using ff(1) by simp
    have c2: "length (i2c_log (snd ?r)) = length (i2c_log s) + Suc k"
      "take (length (i2c_log s)) (i2c_log (snd ?r)) = i2c_log s"
      "k < length (start_programs s) \<longrightarrow>
           i2c_log (snd ?r) = i2c_log s @ take (Suc k) (start_programs s)"
      "length (start_programs s) \<le> k \<longrightarrow>
           take (length (i2c_log s) + length (start_programs s)) (i2c_log (snd ?r))
             = i2c_log s @ start_programs s"
      "Suc k = start_exchanges s \<longrightarrow>
           (\<exists>ctl. length ctl = 13 \<and>
              i2c_log (snd ?r) =
                i2c_log s @ start_programs s @ ctl @ [I2C_send [0x01, 0x00, 0x01]])"
      using ff(2-6) unfolding lr l [THEN conjunct1] by - assumption+
    from c1 st c2 show "fst ?r = - EIO \<and> \<not> streaming (snd ?r) \<and> \<not> mutex_locked (snd ?r) \<and>
        power_on (snd ?r) = power_on s \<and> \<not> rpm_suspended (snd ?r) \<and>
        hw_powered (snd ?r) = (rpm_suspended s \<or> hw_powered s) \<and>
        (\<forall>c. grabbed (ctrl_handler (snd ?r) c) = grabbed (ctrl_handler s c)) \<and>
        length (i2c_log (snd ?r)) = length (i2c_log s) + Suc k \<and>
        take (length (i2c_log s)) (i2c_log (snd ?r)) = i2c_log s \<and>
        (k < length (start_programs s) \<longrightarrow>
           i2c_log (snd ?r) = i2c_log s @ take (Suc k) (start_programs s)) \<and>
        (length (start_programs s) \<le> k \<longrightarrow>
           take (length (i2c_log s) + length (start_programs s)) (i2c_log (snd ?r))
             = i2c_log s @ start_programs s) \<and>
        (Suc k = start_exchanges s \<longrightarrow>
           (\<exists>ctl. length ctl = 13 \<and>
              i2c_log (snd ?r) =
                i2c_log s @ start_programs s @ ctl @ [I2C_send [0x01, 0x00, 0x01]]))"
      by - (intro conjI, assumption+)
  qed
  have power: "rpm_suspended s \<and> (regulator_err s \<noteq> 0 \<or> clk_err s \<noteq> 0) \<longrightarrow>
        fst ?r = (if regulator_err s \<noteq> 0 then - int (regulator_err s) else - int (clk_err s)) \<and>
        fst ?r \<noteq> 0"
  proof
    assume h: "rpm_suspended s \<and> (regulator_err s \<noteq> 0 \<or> clk_err s \<noteq> 0)"
    then have e: "fst ?g =
        (if regulator_err s \<noteq> 0 then - int (regulator_err s) else - int (clk_err s))"
      using pm_runtime_get_sync_error [of "mutex_lock s"] by (simp add: mutex_lock_def)
    with h have "fst ?g < 0" by auto
    with u have "fst ?r = fst ?g" by simp
    with e h show "fst ?r =
        (if regulator_err s \<noteq> 0 then - int (regulator_err s) else - int (clk_err s)) \<and>
        fst ?r \<noteq> 0" by auto
  qed
  have ok: "fst ?r = 0 \<longrightarrow>
        streaming (snd ?r) \<and> (\<forall>j < start_exchanges s. \<not> i2c_fail s (length (i2c_log s) + j))"
  proof
    assume z: "fst ?r = 0"
    note p = start_streaming_success_parts [OF assms z]
    note l = lg [OF p(1)]
    have "\<not> (\<exists>j. j < start_exchanges s \<and> i2c_fail s (length (i2c_log s) + j))"
    proof
      assume "\<exists>j. j < start_exchanges s \<and> i2c_fail s (length (i2c_log s) + j)"
      then obtain k where k: "k < start_exchanges s \<and> i2c_fail s (length (i2c_log s) + k)"
        "\<forall>j<k. \<not> (j < start_exchanges s \<and> i2c_fail s (length (i2c_log s) + j))"
        unfolding exists_least_iff [of "\<lambda>j. j < start_exchanges s \<and>
          i2c_fail s (length (i2c_log s) + j)"] by blast
      then have "\<forall>j<k. \<not> i2c_fail s (length (i2c_log s) + j)" by auto
      with k(1) have "fst ?b = - EIO"
        by (intro imx477_start_streaming_first_failure(1) [of k]) (simp_all add: fr l)
      with p(2) show False by (simp add: EIO_def)
    qed
    then show "streaming (snd ?r) \<and>
        (\<forall>j < start_exchanges s. \<not> i2c_fail s (length (i2c_log s) + j))"
      using start_streaming_success_state(1) [OF assms z] by blast
  qed
  show ?thesis by (rule conjI [OF first conjI [OF power conjI [OF err ok]]])
qed

theorem start_streaming_failure_state_witness:
  "\<not> streaming dev_bus_fault \<and> \<not> rpm_suspended dev_bus_fault \<and>
   (2::nat) < start_exchanges dev_bus_fault \<and>
   i2c_fail dev_bus_fault (length (i2c_log dev_bus_fault) + 2) \<and>
   \<not> i2c_fail dev_bus_fault (length (i2c_log dev_bus_fault) + 0) \<and>
   \<not> i2c_fail dev_bus_fault (length (i2c_log dev_bus_fault) + 1) \<and>
   fst (start_streaming dev_bus_fault) = - EIO \<and>
   \<not> streaming (snd (start_streaming dev_bus_fault)) \<and>
   \<not> mutex_locked (snd (start_streaming dev_bus_fault)) \<and>
   i2c_log (snd (start_streaming dev_bus_fault)) =
     [I2C_send [0x01, 0x03, 0x01], I2C_send [0x01, 0x36, 0x18], I2C_send [0x01, 0x37, 0x00]] \<and>
   \<not> streaming dev_stream_on_fault \<and> \<not> rpm_suspended dev_stream_on_fault \<and>
   Suc 199 = start_exchanges dev_stream_on_fault \<and>
   i2c_fail dev_stream_on_fault (length (i2c_log dev_stream_on_fault) + 199) \<and>
   fst (start_streaming dev_stream_on_fault) = - EIO \<and>
   \<not> streaming (snd (start_streaming dev_stream_on_fault)) \<and>
   \<not> mutex_locked (snd (start_streaming dev_stream_on_fault)) \<and>
   length (i2c_log (snd (start_streaming dev_stream_on_fault))) = 200 \<and>
   last (i2c_log (snd (start_streaming dev_stream_on_fault))) = I2C_send [0x01, 0x00, 0x01] \<and>
   \<not> streaming dev_power_fault \<and> rpm_suspended dev_power_fault \<and>
   regulator_err dev_power_fault \<noteq> 0 \<and>
   fst (start_streaming dev_power_fault) = - 5 \<and>
   \<not> streaming (snd (start_streaming dev_power_fault)) \<and>
   \<not> mutex_locked (snd (start_streaming dev_power_fault)) \<and>
   \<not> streaming probed_dev \<and> fst (start_streaming probed_dev) = 0 \<and>
   streaming (snd (start_streaming probed_dev)) \<and>
   \<not> i2c_fail probed_dev (length (i2c_log probed_dev) + 199)"
proof -
  note f1 = dev_bus_fault_facts
  note f2 = dev_stream_on_fault_facts
  note f3 = dev_power_fault_facts
  have p1: "(rpm_suspended dev_bus_fault \<longrightarrow>
        regulator_err dev_bus_fault = 0 \<and> clk_err dev_bus_fault = 0) \<and>
      2 < start_exchanges dev_bus_fault \<and>
      i2c_fail dev_bus_fault (length (i2c_log dev_bus_fault) + 2) \<and>
      (\<forall>j<2. \<not> i2c_fail dev_bus_fault (length (i2c_log dev_bus_fault) + j))"
    by (simp add: f1 start_exchanges_probed)
  note t1 = start_streaming_failure_state [OF f1(1), of 2, THEN conjunct1, THEN mp, OF p1]
  have l1: "(2::nat) < length (start_programs dev_bus_fault)"
    by (simp add: start_programs_def dev_bus_fault_def probed_dev_def length_mode_regs)
  have c1: "fst (start_streaming dev_bus_fault) = - EIO"
    "\<not> streaming (snd (start_streaming dev_bus_fault))"
    "\<not> mutex_locked (snd (start_streaming dev_bus_fault))"
    "i2c_log (snd (start_streaming dev_bus_fault)) =
       [I2C_send [0x01, 0x03, 0x01], I2C_send [0x01, 0x36, 0x18], I2C_send [0x01, 0x37, 0x00]]"
    using t1 l1 by (simp_all add: f1 start_programs_dev_bus_fault)
  have p2: "(rpm_suspended dev_stream_on_fault \<longrightarrow>
        regulator_err dev_stream_on_fault = 0 \<and> clk_err dev_stream_on_fault = 0) \<and>
      199 < start_exchanges dev_stream_on_fault \<and>
      i2c_fail dev_stream_on_fault (length (i2c_log dev_stream_on_fault) + 199) \<and>
      (\<forall>j<199. \<not> i2c_fail dev_stream_on_fault (length (i2c_log dev_stream_on_fault) + j))"
    by (simp add: f2 start_exchanges_probed)
  note t2 = start_streaming_failure_state [OF f2(1), of 199, THEN conjunct1, THEN mp, OF p2]
  have c2: "fst (start_streaming dev_stream_on_fault) = - EIO"
    "\<not> streaming (snd (start_streaming dev_stream_on_fault))"
    "\<not> mutex_locked (snd (start_streaming dev_stream_on_fault))"
    "length (i2c_log (snd (start_streaming dev_stream_on_fault))) = 200"
    using t2 by (simp_all add: f2)
  from t2 have "\<exists>ctl. length ctl = 13 \<and>
      i2c_log (snd (start_streaming dev_stream_on_fault)) =
        i2c_log dev_stream_on_fault @ start_programs dev_stream_on_fault @ ctl @
        [I2C_send [0x01, 0x00, 0x01]]"
    by (simp add: start_exchanges_probed)
  then have c2l: "last (i2c_log (snd (start_streaming dev_stream_on_fault))) =
      I2C_send [0x01, 0x00, 0x01]"
    by auto
  have p3: "rpm_suspended dev_power_fault \<and>
      (regulator_err dev_power_fault \<noteq> 0 \<or> clk_err dev_power_fault \<noteq> 0)"
    by (simp add: f3)
  note t3 = start_streaming_failure_state [OF f3(1), of 0, THEN conjunct2, THEN conjunct1,
      THEN mp, OF p3]
  have c3: "fst (start_streaming dev_power_fault) = - 5" using t3 by (simp add: f3)
  then have "fst (start_streaming dev_power_fault) \<noteq> 0" by simp
  note t3' = start_streaming_failure_state [OF f3(1), of 0, THEN conjunct2, THEN conjunct2,
      THEN conjunct1, THEN mp, OF this]
  have c3': "\<not> streaming (snd (start_streaming dev_power_fault))"
    "\<not> mutex_locked (snd (start_streaming dev_power_fault))"
    using t3' by simp_all
  have ok: "fst (start_streaming probed_dev) = 0"
    by (rule start_streaming_ok [OF probed_dev_facts(1-3)])
  note t4 = start_streaming_failure_state [OF probed_dev_facts(1), of 0, THEN conjunct2,
      THEN conjunct2, THEN conjunct2, THEN mp, OF ok]
  have c4: "streaming (snd (start_streaming probed_dev))"
    "\<not> i2c_fail probed_dev (length (i2c_log probed_dev) + 199)"
    using t4 by (simp_all add: start_exchanges_probed)
  show ?thesis
    using c1 c2 c2l c3 c3' c4 ok
    by (simp add: f1 f2 f3 probed_dev_facts start_exchanges_probed)
qed

section \<open>The grab of the flip controls\<close>












end
